theory Spec2Isabelle
  imports Complex_Main "HOL-Library.Word"
begin

section \<open>Recovery log: RecordingRecoveryService\<close>

text \<open>
  The service keeps a map \<open>active\<close> from session ids to scratch file paths and works on
  the file system through Node's \<open>fs\<close> and \<open>path\<close> modules. The file system is a store
  from paths to nodes; an operation on it fails only where Node reports a missing path
  (ENOENT); permissions, devices and a file met where a directory is expected are not
  modelled. Paths are POSIX strings. The catalog is the \<open>recordings\<close> list of the
  storage service's store; the JSON file the store saves itself to is not a node of
  the modelled file system.
\<close>

type_synonym byte = "8 word"
type_synonym buffer = "byte list"
type_synonym path = string

datatype node = File buffer | Dir

datatype QualityPreset = Q720p | Q1080p | Q1440p | Q4k

record Recording =
  rid :: string
  name :: string
  rpath :: path
  duration :: real
  fileSize :: nat
  quality :: QualityPreset
  createdAt :: string
  thumbnailPath :: "path option"
  deletedAt :: "string option"

datatype error = ENOENT | SessionNotFound

record service =
  files :: "path \<rightharpoonup> node"
  active :: "string \<rightharpoonup> path"
  recordings :: "Recording list"
  storagePath :: path
  tempRoot :: path

subsection \<open>Node's path module\<close>

definition path_join :: "path \<Rightarrow> string \<Rightarrow> path" where
  "path_join dir file = dir @ ''/'' @ file"

definition basename :: "path \<Rightarrow> string" where
  "basename p = rev (takeWhile (\<lambda>c. c \<noteq> CHR ''/'') (rev p))"

definition extname :: "path \<Rightarrow> string" where
  "extname p =
     (let b = basename p; t = takeWhile (\<lambda>c. c \<noteq> CHR ''.'') (rev b)
      in if length t = length b \<or> Suc (length t) = length b then [] else CHR ''.'' # rev t)"

definition basename_ext :: "path \<Rightarrow> string \<Rightarrow> string" where
  "basename_ext p e =
     (let b = basename p
      in if drop (length b - length e) b = e then take (length b - length e) b else b)"

definition dirname :: "path \<Rightarrow> path" where
  "dirname p =
     (let r = dropWhile (\<lambda>c. c \<noteq> CHR ''/'') (rev p)
      in if r = [] then ''.'' else if tl r = [] then ''/'' else rev (tl r))"

subsection \<open>Node's fs module\<close>

definition existsSync :: "path \<Rightarrow> (path \<rightharpoonup> node) \<Rightarrow> bool" where
  "existsSync p fs = (fs p \<noteq> None)"

definition mkdirSync :: "path \<Rightarrow> (path \<rightharpoonup> node) \<Rightarrow> (path \<rightharpoonup> node)" where
  "mkdirSync p fs = fs(p \<mapsto> Dir)"

definition writeFileSync :: "path \<Rightarrow> buffer \<Rightarrow> (path \<rightharpoonup> node) \<Rightarrow> (path \<rightharpoonup> node)" where
  "writeFileSync p b fs = fs(p \<mapsto> File b)"

definition appendFileSync :: "path \<Rightarrow> buffer \<Rightarrow> (path \<rightharpoonup> node) \<Rightarrow> (path \<rightharpoonup> node)" where
  "appendFileSync p b fs =
     (case fs p of Some (File c) \<Rightarrow> fs(p \<mapsto> File (c @ b)) | _ \<Rightarrow> fs(p \<mapsto> File b))"

definition renameSync :: "path \<Rightarrow> path \<Rightarrow> (path \<rightharpoonup> node) \<Rightarrow> error + (path \<rightharpoonup> node)" where
  "renameSync src dst fs =
     (case fs src of
        None \<Rightarrow> Inl ENOENT
      | Some n \<Rightarrow> Inr (if src = dst then fs else (fs(src := None))(dst \<mapsto> n)))"

definition unlinkSync :: "path \<Rightarrow> (path \<rightharpoonup> node) \<Rightarrow> (path \<rightharpoonup> node)" where
  "unlinkSync p fs = fs(p := None)"

definition statSync :: "path \<Rightarrow> (path \<rightharpoonup> node) \<Rightarrow> error + node" where
  "statSync p fs = (case fs p of None \<Rightarrow> Inl ENOENT | Some n \<Rightarrow> Inr n)"


fun stat_size :: "node \<Rightarrow> nat" where
  "stat_size (File c) = length c"
| "stat_size Dir = 0"

subsection \<open>StorageService\<close>

definition getTempPath :: "service \<Rightarrow> path" where
  "getTempPath s = path_join (tempRoot s) ''choome''"

text \<open>
  \<open>generateRecordingPath\<close> reads the clock; \<open>stamp\<close> is the text that
  \<open>new Date().toISOString()\<close> returns at the call.
\<close>

definition generateRecordingPath :: "string \<Rightarrow> string \<Rightarrow> service \<Rightarrow> path" where
  "generateRecordingPath extension stamp s =
     path_join (storagePath s)
       (''recording-'' @ map (\<lambda>c. if c = CHR '':'' \<or> c = CHR ''.'' then CHR ''-'' else c) stamp
          @ ''.'' @ extension)"

definition addRecording :: "Recording \<Rightarrow> service \<Rightarrow> service" where
  "addRecording r s = s\<lparr>recordings := r # recordings s\<rparr>"

subsection \<open>begin, append, finalize, discard\<close>

definition EXTENSION_BY_MIME :: "string \<rightharpoonup> string" where
  "EXTENSION_BY_MIME =
     [''video/webm'' \<mapsto> ''webm'', ''video/mp4'' \<mapsto> ''mp4'', ''video/quicktime'' \<mapsto> ''mov'']"

text \<open>\<open>uuid\<close> is the value \<open>randomUUID()\<close> returns at the call.\<close>

definition begin_session :: "string \<Rightarrow> string \<Rightarrow> service \<Rightarrow> (string \<times> path) \<times> service" where
  "begin_session mimeType uuid s =
     (let extension = (case EXTENSION_BY_MIME mimeType of Some e \<Rightarrow> e | None \<Rightarrow> ''webm'');
          tempDir = getTempPath s;
          fs1 = (if \<not> existsSync tempDir (files s) then mkdirSync tempDir (files s) else files s);
          filePath = path_join tempDir (''recovery-'' @ uuid @ ''.'' @ extension);
          fs2 = writeFileSync filePath [] fs1
      in ((uuid, filePath), s\<lparr>files := fs2, active := (active s)(uuid \<mapsto> filePath)\<rparr>))"

text \<open>The guard \<open>!filePath\<close> also holds for the empty string.\<close>

definition append_chunk :: "string \<Rightarrow> buffer \<Rightarrow> service \<Rightarrow> service" where
  "append_chunk i b s =
     (case active s i of
        None \<Rightarrow> s
      | Some filePath \<Rightarrow>
          if filePath = [] then s else s\<lparr>files := appendFileSync filePath b (files s)\<rparr>)"

record meta =
  meta_duration :: real
  meta_quality :: QualityPreset

text \<open>
  What \<open>finalize\<close> takes from outside the service: the two clock readings (inside
  \<open>generateRecordingPath\<close> and for \<open>createdAt\<close>), and what the thumbnail generator
  does, namely the bytes it leaves at its output path, if any, and whether its promise
  resolves.
\<close>

record finalize_env =
  pathStamp :: string
  createdStamp :: string
  thumbnailWritten :: "buffer option"
  thumbnailOk :: bool

definition is_word :: "char \<Rightarrow> bool" where
  "is_word c = (c \<in> set ''abcdefghijklmnopqrstuvwxyzABCDEFGHIJKLMNOPQRSTUVWXYZ0123456789_'')"

text \<open>\<open>p.replace(/\.\w+$/, '')\<close>: drops a final dot followed by one or more word characters.\<close>

definition strip_ext :: "string \<Rightarrow> string" where
  "strip_ext p =
     (let t = takeWhile is_word (rev p)
      in if t \<noteq> [] \<and> take 1 (drop (length t) (rev p)) = ''.''
         then rev (drop (Suc (length t)) (rev p)) else p)"

text \<open>\<open>path.extname(filePath).replace('.', '') || 'webm'\<close>\<close>

definition extension_of :: "path \<Rightarrow> string" where
  "extension_of filePath =
     (let e = remove1 (CHR ''.'') (extname filePath) in if e = [] then ''webm'' else e)"

definition finalize :: "string \<Rightarrow> meta \<Rightarrow> finalize_env \<Rightarrow> service \<Rightarrow> error + (Recording \<times> service)" where
  "finalize i m env s =
     (case active s i of
        None \<Rightarrow> Inl SessionNotFound
      | Some filePath \<Rightarrow>
          if filePath = [] then Inl SessionNotFound
          else
            let extension = extension_of filePath;
                outputPath = generateRecordingPath extension (pathStamp env) s;
                outputDir = dirname outputPath;
                fs1 = (if \<not> existsSync outputDir (files s) then mkdirSync outputDir (files s)
                       else files s)
            in (case renameSync filePath outputPath fs1 of
                 Inl e \<Rightarrow> Inl e
               | Inr fs2 \<Rightarrow>
                   (case statSync outputPath fs2 of
                      Inl e \<Rightarrow> Inl e
                    | Inr stats \<Rightarrow>
                        let thumbnailOutput = strip_ext outputPath @ ''.jpg'';
                            fs3 = (case thumbnailWritten env of
                                     None \<Rightarrow> fs2
                                   | Some jpg \<Rightarrow> writeFileSync thumbnailOutput jpg fs2);
                            recording =
                              \<lparr>rid = i,
                               name = basename_ext outputPath (extname outputPath),
                               rpath = outputPath,
                               duration = meta_duration m,
                               fileSize = stat_size stats,
                               quality = meta_quality m,
                               createdAt = createdStamp env,
                               thumbnailPath =
                                 (if thumbnailOk env then Some thumbnailOutput else None),
                               deletedAt = None\<rparr>
                        in Inr (recording,
                                addRecording recording
                                  (s\<lparr>files := fs3, active := (active s)(i := None)\<rparr>)))))"

definition discard :: "string \<Rightarrow> service \<Rightarrow> service" where
  "discard i s =
     (let fs1 = (case active s i of
                   None \<Rightarrow> files s
                 | Some filePath \<Rightarrow>
                     if filePath \<noteq> [] \<and> existsSync filePath (files s)
                     then unlinkSync filePath (files s) else files s)
      in s\<lparr>files := fs1, active := (active s)(i := None)\<rparr>)"

subsection \<open>recoverOrphaned\<close>


definition js_round :: "real \<Rightarrow> int" where
  "js_round x = \<lfloor>x + 1 / 2\<rfloor>"







text \<open>The call sequence begin, append for each chunk in order, finalize.\<close>

definition recovery_run ::
  "string \<Rightarrow> string \<Rightarrow> buffer list \<Rightarrow> meta \<Rightarrow> finalize_env \<Rightarrow> service
     \<Rightarrow> error + (Recording \<times> service)" where
  "recovery_run mime uuid bs m env s =
     (case begin_session mime uuid s of
        ((i, p), s1) \<Rightarrow> finalize i m env (fold (append_chunk i) bs s1))"

text \<open>The scratch path that \<open>begin\<close> allocates, and the extensions it can give it.\<close>

definition scratch_path :: "string \<Rightarrow> string \<Rightarrow> service \<Rightarrow> path" where
  "scratch_path mime uuid s =
     path_join (getTempPath s)
       (''recovery-'' @ uuid @ ''.'' @
          (case EXTENSION_BY_MIME mime of Some e \<Rightarrow> e | None \<Rightarrow> ''webm''))"

definition known_ext :: "string \<Rightarrow> bool" where
  "known_ext e = (e = ''webm'' \<or> e = ''mp4'' \<or> e = ''mov'')"

subsection \<open>A sample run\<close>

definition fresh_service :: service where
  "fresh_service = \<lparr>files = Map.empty, active = Map.empty, recordings = [],
     storagePath = ''/home/u/Videos'', tempRoot = ''/tmp''\<rparr>"

definition sample_env :: finalize_env where
  "sample_env = \<lparr>pathStamp = ''2026-01-02T03:04:05.678Z'',
     createdStamp = ''2026-01-02T03:04:05.679Z'',
     thumbnailWritten = Some [1, 2, 3], thumbnailOk = True\<rparr>"

definition sample_meta :: meta where
  "sample_meta = \<lparr>meta_duration = 12, meta_quality = Q1080p\<rparr>"

definition open_service :: service where
  "open_service = snd (begin_session ''video/webm'' ''abc-1'' fresh_service)"





section \<open>Stream watchdog: refreshWebcamStream and the staleness check of drawFrame\<close>

text \<open>
  The closure variables of the compositor set up by \<open>startRecording\<close>, with
  \<open>webcamStreamRef.current\<close> and \<open>webcamVideo.srcObject\<close>. Times are readings of
  \<open>performance.now()\<close> in milliseconds. \<open>refreshWebcamStream\<close> is asynchronous:
  \<open>phase\<close> records where its one running call is suspended (at
  \<open>await getWebcamStream()\<close>, or at \<open>await webcamVideo.play()\<close> holding
  \<open>oldStream\<close>). \<open>trace\<close> lists, in order, the acquisitions started and the
  installs, input swaps and releases of webcam sources.
\<close>

type_synonym stream = nat

datatype action = GetWebcamStream | SetStreamRef stream | SetSrcObject stream | StopTracks stream

datatype refresh_phase = NotRunning | AwaitStream | AwaitPlay "stream option"

record watchdog =
  lastWebcamTime :: real
  lastWebcamFrameAt :: real
  webcamRefreshInFlight :: bool
  webcamRefreshCooldownUntil :: real
  webcamStreamRef :: "stream option"
  srcObject :: "stream option"
  phase :: refresh_phase
  trace :: "action list"

text \<open>
  \<open>getWebcamStream\<close> tries the constraint sets in order; the list holds what
  \<open>getUserMedia\<close> gives for each (\<open>None\<close> where it rejects). \<open>None\<close> as result is
  the rethrown last error.
\<close>

fun getWebcamStream :: "stream option list \<Rightarrow> stream option" where
  "getWebcamStream [] = None"
| "getWebcamStream (Some st # rest) = Some st"
| "getWebcamStream (None # rest) = getWebcamStream rest"

text \<open>The synchronous head of \<open>refreshWebcamStream\<close>, up to the first \<open>await\<close>.\<close>

definition refreshWebcamStream :: "real \<Rightarrow> watchdog \<Rightarrow> watchdog" where
  "refreshWebcamStream now w =
     (if webcamRefreshInFlight w \<or> now < webcamRefreshCooldownUntil w then w
      else w\<lparr>webcamRefreshInFlight := True, phase := AwaitStream,
             trace := trace w @ [GetWebcamStream]\<rparr>)"

text \<open>The \<open>finally\<close> block.\<close>

definition refresh_finally :: "real \<Rightarrow> watchdog \<Rightarrow> watchdog" where
  "refresh_finally now w =
     w\<lparr>lastWebcamFrameAt := now, webcamRefreshCooldownUntil := now + 5000,
       webcamRefreshInFlight := False, phase := NotRunning\<rparr>"

text \<open>
  \<open>getWebcamStream\<close> settles: on a stream the new source is installed and made the
  video element's input, and the call suspends at \<open>play()\<close>; on an error the
  \<open>catch\<close> and \<open>finally\<close> blocks run.
\<close>

definition stream_settled :: "stream option list \<Rightarrow> real \<Rightarrow> watchdog \<Rightarrow> watchdog" where
  "stream_settled outcomes now w =
     (case phase w of
        AwaitStream \<Rightarrow>
          (case getWebcamStream outcomes of
             Some newStream \<Rightarrow>
               w\<lparr>webcamStreamRef := Some newStream, srcObject := Some newStream,
                 phase := AwaitPlay (webcamStreamRef w),
                 trace := trace w @ [SetStreamRef newStream, SetSrcObject newStream]\<rparr>
           | None \<Rightarrow> refresh_finally now w)
      | _ \<Rightarrow> w)"

text \<open>\<open>play()\<close> settles (its rejection is caught in place): the old tracks stop.\<close>

definition play_settled :: "real \<Rightarrow> watchdog \<Rightarrow> watchdog" where
  "play_settled now w =
     (case phase w of
        AwaitPlay oldStream \<Rightarrow>
          refresh_finally now
            (case oldStream of
               Some old \<Rightarrow> w\<lparr>trace := trace w @ [StopTracks old]\<rparr>
             | None \<Rightarrow> w)
      | _ \<Rightarrow> w)"

text \<open>
  The staleness check at the head of the webcam branch of \<open>drawFrame\<close>. \<open>now\<close> is
  the clock reading of the check, \<open>now'\<close> the one inside \<open>refreshWebcamStream\<close>.
\<close>

definition drawFrame_watchdog :: "nat \<Rightarrow> real \<Rightarrow> real \<Rightarrow> real \<Rightarrow> watchdog \<Rightarrow> watchdog" where
  "drawFrame_watchdog readyState currentTime now now' w =
     (if readyState \<ge> 2 then
        if currentTime \<noteq> lastWebcamTime w
        then w\<lparr>lastWebcamTime := currentTime, lastWebcamFrameAt := now\<rparr>
        else if now - lastWebcamFrameAt w > 2000 then refreshWebcamStream now' w
        else w
      else w)"

text \<open>
  What can happen to the watchdog: a render tick, an \<open>ended\<close> or \<open>mute\<close> event of
  a webcam track (both are bound to \<open>refreshWebcamStream\<close>), and the two settlements.
\<close>

datatype event =
  Tick nat real real real
| TrackEvent real
| StreamSettled "stream option list" real
| PlaySettled real

fun step :: "event \<Rightarrow> watchdog \<Rightarrow> watchdog" where
  "step (Tick readyState currentTime now now') w = drawFrame_watchdog readyState currentTime now now' w"
| "step (TrackEvent now) w = refreshWebcamStream now w"
| "step (StreamSettled outcomes now) w = stream_settled outcomes now w"
| "step (PlaySettled now) w = play_settled now w"

text \<open>The state when the compositor starts, at time \<open>t0\<close> with webcam stream \<open>st\<close>.\<close>

definition watchdog_init :: "real \<Rightarrow> stream \<Rightarrow> watchdog" where
  "watchdog_init t0 st =
     \<lparr>lastWebcamTime = - 1, lastWebcamFrameAt = t0, webcamRefreshInFlight = False,
      webcamRefreshCooldownUntil = 0, webcamStreamRef = Some st, srcObject = Some st,
      phase = NotRunning, trace = []\<rparr>"

text \<open>The number of reacquire attempts started so far.\<close>

definition attempts :: "watchdog \<Rightarrow> nat" where
  "attempts w = count_list (trace w) GetWebcamStream"

text \<open>A tick or track event whose call of \<open>refreshWebcamStream\<close> reads a time before \<open>t\<close>.\<close>

fun trigger_before :: "real \<Rightarrow> event \<Rightarrow> bool" where
  "trigger_before t (Tick readyState currentTime now now') = (now' < t)"
| "trigger_before t (TrackEvent now) = (now < t)"
| "trigger_before t (StreamSettled outcomes now) = False"
| "trigger_before t (PlaySettled now) = False"

fun is_trigger :: "event \<Rightarrow> bool" where
  "is_trigger (Tick readyState currentTime now now') = True"
| "is_trigger (TrackEvent now) = True"
| "is_trigger (StreamSettled outcomes now) = False"
| "is_trigger (PlaySettled now) = False"

text \<open>
  A tick on which the webcam shows the frame time \<open>ct\<close> again, checked at a time not
  after \<open>limit\<close>.
\<close>

fun stalled_within :: "real \<Rightarrow> real \<Rightarrow> event \<Rightarrow> bool" where
  "stalled_within ct limit (Tick readyState currentTime now now') = (currentTime = ct \<and> now \<le> limit)"
| "stalled_within ct limit (TrackEvent now) = False"
| "stalled_within ct limit (StreamSettled outcomes now) = False"
| "stalled_within ct limit (PlaySettled now) = False"

subsection \<open>A sample run of the watchdog\<close>

definition stalled_watchdog :: watchdog where
  "stalled_watchdog = step (Tick 2 (1 / 2) 100 100) (watchdog_init 0 1)"

definition refreshing_watchdog :: watchdog where
  "refreshing_watchdog = step (Tick 2 (1 / 2) 2200 2201) stalled_watchdog"

definition reacquire_run :: "event list" where
  "reacquire_run =
     [Tick 2 (1 / 2) 100 100, Tick 2 (1 / 2) 2200 2201, StreamSettled [None, Some 7] 2500,
      Tick 2 (1 / 2) 2600 2601, PlaySettled 2700]"

text \<open>
  In a trace, every release of a source comes right after the install of a new source
  and the swap of the video element's input to it.
\<close>

definition swap_before_release :: "action list \<Rightarrow> bool" where
  "swap_before_release tr =
     (\<forall>pre old post. tr = pre @ StopTracks old # post \<longrightarrow>
        (\<exists>pre' new. pre = pre' @ [SetStreamRef new, SetSrcObject new]))"

text \<open>
  The invariant of the watchdog: its trace is ordered as above, and while the running
  call waits for \<open>play()\<close> its trace ends with the install and the swap.
\<close>

definition watchdog_inv :: "watchdog \<Rightarrow> bool" where
  "watchdog_inv w =
     (swap_before_release (trace w) \<and>
      (case phase w of
         AwaitPlay old \<Rightarrow> (\<exists>tr new. trace w = tr @ [SetStreamRef new, SetSrcObject new])
       | _ \<Rightarrow> True))"

section \<open>Recording session: the duration timer, pause and resume\<close>

text \<open>
  The part of the \<open>useRecording\<close> hook that reports the duration: the store's
  \<open>status\<close> and \<open>duration\<close>, the \<open>MediaRecorder\<close> state, \<open>startTimeRef\<close>,
  \<open>pausedDurationRef\<close> and whether the interval timer of \<open>timerRef\<close> is running.
  Times are readings of \<open>Date.now()\<close> in milliseconds.
\<close>

datatype RecordingStatus = Idle | Recording | Paused | Processing

datatype recorder_state = RecInactive | RecRecording | RecPaused

record session =
  status :: RecordingStatus
  recorderState :: recorder_state
  startTimeRef :: int
  pausedDurationRef :: int
  timerRunning :: bool
  storeDuration :: int

text \<open>The \<open>onstart\<close> handler of the recorder, after \<open>start(1000)\<close>.\<close>

definition onstart :: "int \<Rightarrow> session \<Rightarrow> session" where
  "onstart now s =
     s\<lparr>status := Recording, recorderState := RecRecording, startTimeRef := now,
       pausedDurationRef := 0, timerRunning := True\<rparr>"

text \<open>The interval callback, installed by \<open>onstart\<close> and again by \<open>resumeRecording\<close>.\<close>

definition timer_tick :: "int \<Rightarrow> session \<Rightarrow> session" where
  "timer_tick now s =
     (if timerRunning s
      then let elapsed = now - startTimeRef s - pausedDurationRef s
           in s\<lparr>storeDuration := elapsed div 1000\<rparr>
      else s)"

definition pauseRecording :: "session \<Rightarrow> session" where
  "pauseRecording s =
     (if recorderState s = RecRecording
      then s\<lparr>recorderState := RecPaused, status := Paused, timerRunning := False\<rparr>
      else s)"

text \<open>\<open>resumeRecording\<close> reads the clock into \<open>pauseEnd\<close> and does not use it.\<close>

definition resumeRecording :: "int \<Rightarrow> session \<Rightarrow> session" where
  "resumeRecording pauseEnd s =
     (if recorderState s = RecPaused
      then s\<lparr>recorderState := RecRecording, status := Recording, timerRunning := True\<rparr>
      else s)"

datatype session_event = TimerTick int | PauseClicked int | ResumeClicked int

fun session_step :: "session_event \<Rightarrow> session \<Rightarrow> session" where
  "session_step (TimerTick now) s = timer_tick now s"
| "session_step (PauseClicked now) s = pauseRecording s"
| "session_step (ResumeClicked now) s = resumeRecording now s"

definition idle_session :: session where
  "idle_session = \<lparr>status = Idle, recorderState = RecInactive, startTimeRef = 0,
     pausedDurationRef = 0, timerRunning = False, storeDuration = 0\<rparr>"

text \<open>
  A session started at time 0, paused from 5 s to 15 s, and read by the timer at 16 s.
\<close>

definition paused_run :: "session_event list" where
  "paused_run =
     [TimerTick 1000, TimerTick 2000, TimerTick 3000, TimerTick 4000, TimerTick 5000,
      PauseClicked 5000, ResumeClicked 15000, TimerTick 16000]"

section \<open>Recording session: startRecording\<close>

text \<open>
  A \<open>MediaStream\<close> is its video and audio tracks; a track is an opaque handle. The
  outcome of each acquisition and construction that \<open>startRecording\<close> awaits is an
  input of the model: \<open>None\<close> is a rejected promise or a thrown error.
\<close>

type_synonym track = nat

record mediaStream =
  videoTracks :: "track list"
  audioTracks :: "track list"

subsection \<open>Audio: acquisition and mixing\<close>

record audio_env =
  includeSystemAudio :: bool
  systemAudioMuted :: bool
  hasGetDisplayMedia :: bool
  displayStream :: "mediaStream option"
  includeMicrophone :: bool
  microphoneMuted :: bool
  micStream :: "mediaStream option"

text \<open>
  The \<open>audioStreams\<close> array after both acquisition blocks: the display stream when
  it was acquired and has an audio track, then the microphone stream when it was
  acquired. Each failure is caught in its own block; for the display stream \<open>None\<close>
  also stands for a rejected \<open>setPreferredSource\<close>.
\<close>

definition acquire_audio :: "audio_env \<Rightarrow> mediaStream list" where
  "acquire_audio a =
     (let sys = (if includeSystemAudio a \<and> \<not> systemAudioMuted a
                 then if \<not> hasGetDisplayMedia a then []
                      else (case displayStream a of
                              None \<Rightarrow> []
                            | Some ds \<Rightarrow> if length (audioTracks ds) > 0 then [ds] else [])
                 else []);
          mic = (if includeMicrophone a \<and> \<not> microphoneMuted a
                 then (case micStream a of None \<Rightarrow> [] | Some ms \<Rightarrow> [ms])
                 else [])
      in sys @ mic)"

text \<open>
  The Web Audio graph: whether \<open>new AudioContext()\<close> and
  \<open>createMediaStreamDestination()\<close> succeed, whether \<open>createMediaStreamSource\<close> and
  \<open>connect\<close> succeed for the stream at each index, and the audio tracks of the
  destination's stream.
\<close>

record mix_env =
  contextOk :: bool
  sourceOk :: "nat \<Rightarrow> bool"
  destinationTracks :: "track list"

text \<open>
  What the mixing block leaves: the audio tracks added to the combined stream, the
  streams connected to the destination node, and whether the graph (context and
  destination) was created.
\<close>

record audio_out =
  added :: "track list"
  connected :: "mediaStream list"
  graphCreated :: bool

text \<open>
  The \<open>forEach\<close> that connects each stream in order: the streams connected, and
  whether it ran to the end (\<open>False\<close> when a connection throws).
\<close>

fun connect_all :: "(nat \<Rightarrow> bool) \<Rightarrow> nat \<Rightarrow> mediaStream list \<Rightarrow> mediaStream list \<times> bool" where
  "connect_all ok i [] = ([], True)"
| "connect_all ok i (st # rest) =
     (if ok i
      then (case connect_all ok (Suc i) rest of (cs, finished) \<Rightarrow> (st # cs, finished))
      else ([], False))"

definition mix_audio :: "mix_env \<Rightarrow> mediaStream list \<Rightarrow> audio_out" where
  "mix_audio g audioStreams =
     (case audioStreams of
        [] \<Rightarrow> \<lparr>added = [], connected = [], graphCreated = False\<rparr>
      | [only] \<Rightarrow> \<lparr>added = audioTracks only, connected = [], graphCreated = False\<rparr>
      | first # _ \<Rightarrow>
          if \<not> contextOk g
          then \<lparr>added = audioTracks first, connected = [], graphCreated = False\<rparr>
          else (case connect_all (sourceOk g) 0 audioStreams of
                  (cs, finished) \<Rightarrow>
                    \<lparr>added = (if finished then destinationTracks g else audioTracks first),
                     connected = cs, graphCreated = True\<rparr>))"

text \<open>Sample inputs: a display stream with one audio track, a microphone stream.\<close>

definition sample_display :: mediaStream where
  "sample_display = \<lparr>videoTracks = [10], audioTracks = [11]\<rparr>"

definition sample_mic :: mediaStream where
  "sample_mic = \<lparr>videoTracks = [], audioTracks = [12]\<rparr>"

definition mic_only :: audio_env where
  "mic_only = \<lparr>includeSystemAudio = False, systemAudioMuted = False, hasGetDisplayMedia = True,
     displayStream = None, includeMicrophone = True, microphoneMuted = False,
     micStream = Some sample_mic\<rparr>"

definition both_sources :: audio_env where
  "both_sources = \<lparr>includeSystemAudio = True, systemAudioMuted = False,
     hasGetDisplayMedia = True, displayStream = Some sample_display,
     includeMicrophone = True, microphoneMuted = False, micStream = Some sample_mic\<rparr>"

definition good_graph :: mix_env where
  "good_graph = \<lparr>contextOk = True, sourceOk = (\<lambda>i. True), destinationTracks = [20]\<rparr>"

definition broken_graph :: mix_env where
  "broken_graph = \<lparr>contextOk = True, sourceOk = (\<lambda>i. i = 0), destinationTracks = [20]\<rparr>"

subsection \<open>startRecording\<close>

text \<open>
  The inputs of one call: the hook's state (\<open>selectedSource\<close>, \<open>includeWebcam\<close>),
  and the outcome of each step it awaits, in the order of the code: the settings, the
  screen capture, the overlay geometry query, the webcam capture, the 2d context of the
  canvas, the captured canvas stream, the audio sources and graph, the recovery session,
  and the construction and start of the \<open>MediaRecorder\<close>.
\<close>

record start_env =
  hasSelectedSource :: bool
  includeWebcam :: bool
  settingsOk :: bool
  screenStream :: "mediaStream option"
  overlayConfigOk :: bool
  webcamStream :: "mediaStream option"
  canvasContextOk :: bool
  canvasStream :: mediaStream
  audio :: audio_env
  graph :: mix_env
  recoveryId :: "string option"
  recorderOk :: bool

datatype api_call =
  GetSettings
| GetUserMediaScreen
| GetWebcamOverlayConfig
| GetUserMediaWebcam
| StopWebcamTracks
| BeginRecordingRecovery
| NewMediaRecorder
| ToastRecordingFailed

text \<open>
  What the call leaves: the store's status, the video and audio tracks of the combined
  stream given to the recorder, \<open>webcamStreamRef.current\<close>, \<open>recoveryIdRef.current\<close>,
  and the calls made, in order.
\<close>

record started =
  finalStatus :: RecordingStatus
  combinedVideo :: "track list"
  combinedAudio :: "track list"
  webcamRef :: "mediaStream option"
  recoveryRef :: "string option"
  calls :: "api_call list"

text \<open>
  The \<open>if (includeWebcam)\<close> block with its \<open>try\<close> and \<open>catch\<close>: the stream that
  becomes \<open>videoSourceStream\<close>, the webcam stream left in \<open>webcamStreamRef\<close>, and
  the calls made. The geometry is queried first, the webcam is captured second.
\<close>

definition webcam_block :: "start_env \<Rightarrow> mediaStream \<Rightarrow> mediaStream \<times> mediaStream option \<times> api_call list" where
  "webcam_block env screen =
     (if \<not> includeWebcam env then (screen, None, [])
      else if \<not> overlayConfigOk env then (screen, None, [GetWebcamOverlayConfig])
      else (case webcamStream env of
              None \<Rightarrow> (screen, None, [GetWebcamOverlayConfig, GetUserMediaWebcam])
            | Some cam \<Rightarrow>
                if \<not> canvasContextOk env
                then (screen, None, [GetWebcamOverlayConfig, GetUserMediaWebcam, StopWebcamTracks])
                else (canvasStream env, Some cam, [GetWebcamOverlayConfig, GetUserMediaWebcam])))"

text \<open>The outer \<open>catch\<close>: a toast, and the status set to idle.\<close>

definition start_failed :: "api_call list \<Rightarrow> mediaStream option \<Rightarrow> string option \<Rightarrow> started" where
  "start_failed cs cam rec =
     \<lparr>finalStatus = Idle, combinedVideo = [], combinedAudio = [], webcamRef = cam,
      recoveryRef = rec, calls = cs @ [ToastRecordingFailed]\<rparr>"

definition startRecording :: "start_env \<Rightarrow> RecordingStatus \<Rightarrow> started" where
  "startRecording env st0 =
     (if \<not> hasSelectedSource env
      then \<lparr>finalStatus = st0, combinedVideo = [], combinedAudio = [], webcamRef = None,
            recoveryRef = None, calls = []\<rparr>
      else if \<not> settingsOk env then start_failed [GetSettings] None None
      else (case screenStream env of
              None \<Rightarrow> start_failed [GetSettings, GetUserMediaScreen] None None
            | Some screen \<Rightarrow>
                (case webcam_block env screen of
                   (videoSourceStream, cam, webcamCalls) \<Rightarrow>
                     let mixed = mix_audio (graph env) (acquire_audio (audio env));
                         cs = [GetSettings, GetUserMediaScreen] @ webcamCalls
                                @ [BeginRecordingRecovery, NewMediaRecorder]
                     in if \<not> recorderOk env then start_failed cs cam (recoveryId env)
                        else \<lparr>finalStatus = Recording,
                              combinedVideo = videoTracks videoSourceStream,
                              combinedAudio = added mixed,
                              webcamRef = cam,
                              recoveryRef = recoveryId env,
                              calls = cs\<rparr>)))"

text \<open>A start with the webcam requested and its capture rejected.\<close>

definition sample_screen :: mediaStream where
  "sample_screen = \<lparr>videoTracks = [1], audioTracks = []\<rparr>"

definition webcam_fails :: start_env where
  "webcam_fails = \<lparr>hasSelectedSource = True, includeWebcam = True, settingsOk = True,
     screenStream = Some sample_screen, overlayConfigOk = True, webcamStream = None,
     canvasContextOk = True, canvasStream = \<lparr>videoTracks = [2], audioTracks = []\<rparr>,
     audio = mic_only, graph = good_graph, recoveryId = Some ''abc-1'', recorderOk = True\<rparr>"

section \<open>Frame compositor: placement of the webcam bubble in drawFrame\<close>

text \<open>
  The geometry that \<open>drawFrame\<close> computes on every tick on which the webcam frame is
  available. Numbers are JavaScript numbers, modelled as reals. \<open>overlayConfig\<close> is
  what \<open>getWebcamOverlayConfig\<close> returned, scaled to the canvas where it carries the
  display size; \<open>effectivePosition\<close> is the live drag ratio or else the position stored
  for the source (the older \<open>drawFrame\<close> of \<open>useRecording.ts\<close> has neither: it is the
  case \<open>None\<close>).
\<close>

datatype WebcamShape = Circle | Rounded | Square

record overlayConfig =
  cfgX :: real
  cfgY :: real
  cfgWidth :: real
  cfgHeight :: real
  displayWidth :: "real option"
  displayHeight :: "real option"

record pip =
  pipX :: real
  pipY :: real
  pipWidth :: real
  pipHeight :: real

definition Math_round :: "real \<Rightarrow> real" where
  "Math_round x = of_int (js_round x)"

text \<open>\<open>adjustedOverlayConfig\<close>: a missing or zero display size leaves the geometry as it is.\<close>

definition adjustedOverlayConfig :: "real \<Rightarrow> real \<Rightarrow> overlayConfig \<Rightarrow> overlayConfig" where
  "adjustedOverlayConfig canvasWidth canvasHeight c =
     (case (displayWidth c, displayHeight c) of
        (Some dw, Some dh) \<Rightarrow>
          if dw \<noteq> 0 \<and> dh \<noteq> 0
          then c\<lparr>cfgX := Math_round (cfgX c * (canvasWidth / dw)),
                 cfgY := Math_round (cfgY c * (canvasHeight / dh)),
                 cfgWidth := max 1 (Math_round (cfgWidth c * (canvasWidth / dw))),
                 cfgHeight := max 1 (Math_round (cfgHeight c * (canvasHeight / dh)))\<rparr>
          else c
      | _ \<Rightarrow> c)"

text \<open>The rectangle resolved for the bubble, before the shape is applied.\<close>

definition resolve_pip ::
  "real \<Rightarrow> real \<Rightarrow> real \<Rightarrow> real \<Rightarrow> overlayConfig option \<Rightarrow> (real \<times> real) option \<Rightarrow> pip" where
  "resolve_pip canvasWidth canvasHeight videoWidth videoHeight overlay effectivePosition =
     (let margin = Math_round (min canvasWidth canvasHeight * (2 / 100));
          targetWidth = Math_round (canvasWidth * (22 / 100));
          webcamAspect = (if videoWidth \<noteq> 0 \<and> videoHeight \<noteq> 0
                          then videoWidth / videoHeight else 16 / 9);
          width0 = min targetWidth (canvasWidth - margin * 2);
          height0 = Math_round (width0 / webcamAspect);
          maxHeight = Math_round (canvasHeight * (3 / 10));
          height1 = (if height0 > maxHeight then maxHeight else height0);
          width1 = (if height0 > maxHeight then Math_round (maxHeight * webcamAspect) else width0);
          configured = (case overlay of
                          Some c \<Rightarrow> cfgWidth c > 0 \<and> cfgHeight c > 0
                        | None \<Rightarrow> False);
          width2 = (if configured then min (cfgWidth (the overlay)) canvasWidth else width1);
          height2 = (if configured then min (cfgHeight (the overlay)) canvasHeight else height1);
          x2 = (if configured then min (max (cfgX (the overlay)) 0) (canvasWidth - width2)
                else canvasWidth - width1 - margin);
          y2 = (if configured then min (max (cfgY (the overlay)) 0) (canvasHeight - height2)
                else canvasHeight - height1 - margin)
      in (case effectivePosition of
            None \<Rightarrow> \<lparr>pipX = x2, pipY = y2, pipWidth = width2, pipHeight = height2\<rparr>
          | Some (px, py) \<Rightarrow>
              let maxX = max 0 (canvasWidth - width2);
                  maxY = max 0 (canvasHeight - height2)
              in \<lparr>pipX = min (max (Math_round (px * maxX)) 0) maxX,
                  pipY = min (max (Math_round (py * maxY)) 0) maxY,
                  pipWidth = width2, pipHeight = height2\<rparr>))"

text \<open>The \<open>if (webcamShape === 'circle')\<close> block: the rectangle that is clipped and drawn.\<close>

definition shape_pip :: "WebcamShape \<Rightarrow> pip \<Rightarrow> pip" where
  "shape_pip webcamShape r =
     (if webcamShape = Circle
      then let diameter = min (pipWidth r) (pipHeight r)
           in \<lparr>pipX = pipX r + Math_round ((pipWidth r - diameter) / 2),
               pipY = pipY r + Math_round ((pipHeight r - diameter) / 2),
               pipWidth = diameter, pipHeight = diameter\<rparr>
      else r)"

definition drawFrame_pip ::
  "WebcamShape \<Rightarrow> real \<Rightarrow> real \<Rightarrow> real \<Rightarrow> real \<Rightarrow> overlayConfig option \<Rightarrow> (real \<times> real) option
     \<Rightarrow> pip" where
  "drawFrame_pip webcamShape canvasWidth canvasHeight videoWidth videoHeight overlay effectivePosition =
     shape_pip webcamShape
       (resolve_pip canvasWidth canvasHeight videoWidth videoHeight overlay effectivePosition)"

definition sample_overlay :: overlayConfig where
  "sample_overlay = \<lparr>cfgX = 100, cfgY = 50, cfgWidth = 320, cfgHeight = 240,
     displayWidth = None, displayHeight = None\<rparr>"

section \<open>Properties of the recovery log\<close>

lemmas path_defs = path_join_def basename_def extname_def basename_ext_def dirname_def
  strip_ext_def extension_of_def is_word_def

lemmas fs_defs = existsSync_def mkdirSync_def writeFileSync_def appendFileSync_def
  renameSync_def unlinkSync_def statSync_def

lemma open_service_active:
  "active open_service ''abc-1'' = Some ''/tmp/choome/recovery-abc-1.webm''"
  by (simp add: open_service_def begin_session_def fresh_service_def Let_def
      EXTENSION_BY_MIME_def getTempPath_def path_join_def)

lemma open_service_finalize:
  "\<exists>r s'. finalize ''abc-1'' sample_meta sample_env open_service = Inr (r, s')"
  by (simp add: finalize_def open_service_def begin_session_def fresh_service_def Let_def
      EXTENSION_BY_MIME_def getTempPath_def generateRecordingPath_def path_defs fs_defs
      sample_env_def)

lemma finalize_invalidates:
  assumes "finalize i m env s = Inr (r, s')"
  shows "active s' i = None"
  using assms
  by (auto simp: finalize_def addRecording_def Let_def split: option.splits if_splits sum.splits)

lemma discard_invalidates: "active (discard i s) i = None"
  by (simp add: discard_def Let_def)

subsection \<open>Extensions and the thumbnail path\<close>

lemma extension_by_mime_known:
  "known_ext (case EXTENSION_BY_MIME mime of Some e \<Rightarrow> e | None \<Rightarrow> ''webm'')"
  by (simp add: EXTENSION_BY_MIME_def known_ext_def)

lemma extname_known:
  assumes "known_ext e"
  shows "extname (x @ ''.'' @ e) = [] \<or> extname (x @ ''.'' @ e) = ''.'' @ e"
  using assms by (auto simp: known_ext_def extname_def basename_def Let_def)

lemma extension_of_known:
  assumes "known_ext e"
  shows "known_ext (extension_of (x @ ''.'' @ e))"
  using extname_known [OF assms, of x] assms
  by (auto simp: extension_of_def known_ext_def Let_def)

lemma strip_ext_known:
  assumes "known_ext e"
  shows "strip_ext (x @ ''.'' @ e) = x"
  using assms by (auto simp: known_ext_def strip_ext_def is_word_def Let_def)

lemma thumbnail_not_output:
  assumes "known_ext e"
  shows "strip_ext (x @ ''.'' @ e) @ ''.jpg'' \<noteq> x @ ''.'' @ e"
  using assms by (auto simp: strip_ext_known known_ext_def)

subsection \<open>begin, append and finalize on an open session\<close>

lemma scratch_path_nonempty: "scratch_path mime uuid s \<noteq> []"
  by (simp add: scratch_path_def path_join_def)

lemma scratch_path_extension: "known_ext (extension_of (scratch_path mime uuid s))"
proof -
  have eq: "scratch_path mime uuid s =
      (getTempPath s @ ''/recovery-'' @ uuid) @ ''.'' @
        (case EXTENSION_BY_MIME mime of Some e \<Rightarrow> e | None \<Rightarrow> ''webm'')"
    by (simp add: scratch_path_def path_join_def)
  show ?thesis
    unfolding eq by (rule extension_of_known [OF extension_by_mime_known])
qed

lemma begin_session_state:
  fixes s mime uuid
  defines "s1 \<equiv> snd (begin_session mime uuid s)"
  shows "fst (begin_session mime uuid s) = (uuid, scratch_path mime uuid s)"
    and "active s1 uuid = Some (scratch_path mime uuid s)"
    and "files s1 (scratch_path mime uuid s) = Some (File [])"
    and "recordings s1 = recordings s"
    and "storagePath s1 = storagePath s"
  by (simp_all add: s1_def begin_session_def scratch_path_def Let_def writeFileSync_def)

lemma append_chunk_open:
  assumes "active s i = Some fp" "fp \<noteq> []" "files s fp = Some (File c)"
  shows "append_chunk i b s = s\<lparr>files := (files s)(fp \<mapsto> File (c @ b))\<rparr>"
  using assms by (simp add: append_chunk_def appendFileSync_def)

lemma fold_append_chunk:
  assumes "active s i = Some fp" "fp \<noteq> []" "files s fp = Some (File c)"
  shows "fold (append_chunk i) bs s = s\<lparr>files := (files s)(fp \<mapsto> File (c @ concat bs))\<rparr>"
  using assms
proof (induction bs arbitrary: s c)
  case Nil
  then show ?case by (simp add: fun_upd_idem)
next
  case (Cons b bs)
  let ?s = "s\<lparr>files := (files s)(fp \<mapsto> File (c @ b))\<rparr>"
  have step: "append_chunk i b s = ?s"
    using Cons.prems by (rule append_chunk_open)
  have "fold (append_chunk i) (b # bs) s = fold (append_chunk i) bs ?s"
    by (simp add: step)
  also have "\<dots> = ?s\<lparr>files := (files ?s)(fp \<mapsto> File ((c @ b) @ concat bs))\<rparr>"
    using Cons.prems by (intro Cons.IH) simp_all
  also have "\<dots> = s\<lparr>files := (files s)(fp \<mapsto> File (c @ concat (b # bs)))\<rparr>"
    by simp
  finally show ?case .
qed

lemma finalize_open:
  assumes a: "active s i = Some fp" and ne: "fp \<noteq> []" and f: "files s fp = Some (File c)"
    and k: "known_ext (extension_of fp)"
  shows "\<exists>r s'. finalize i m env s = Inr (r, s') \<and>
           files s' (rpath r) = Some (File c) \<and> fileSize r = length c \<and>
           duration r = meta_duration m \<and> quality r = meta_quality m \<and>
           recordings s' = r # recordings s \<and> active s' i = None"
proof -
  let ?out = "generateRecordingPath (extension_of fp) (pathStamp env) s"
  let ?fs1 = "if \<not> existsSync (dirname ?out) (files s)
              then mkdirSync (dirname ?out) (files s) else files s"
  let ?fs2 = "if fp = ?out then ?fs1 else (?fs1(fp := None))(?out \<mapsto> File c)"
  have fs1_fp: "?fs1 fp = Some (File c)"
    using f by (auto simp: existsSync_def mkdirSync_def)
  have ren: "renameSync fp ?out ?fs1 = Inr ?fs2"
    unfolding renameSync_def fs1_fp by simp
  have fs2_out: "?fs2 ?out = Some (File c)"
    using fs1_fp by (cases "fp = ?out") simp_all
  have st: "statSync ?out ?fs2 = Inr (File c)"
    unfolding statSync_def fs2_out by simp
  have thumb: "strip_ext ?out @ ''.jpg'' \<noteq> ?out"
  proof -
    have eq: "?out = (storagePath s @ ''/recording-'' @
        map (\<lambda>c. if c = CHR '':'' \<or> c = CHR ''.'' then CHR ''-'' else c) (pathStamp env))
        @ ''.'' @ extension_of fp"
      by (simp add: generateRecordingPath_def path_join_def)
    show ?thesis
      unfolding eq by (rule thumbnail_not_output [OF k])
  qed
  have fin: "finalize i m env s =
      (let thumbnailOutput = strip_ext ?out @ ''.jpg'';
           fs3 = (case thumbnailWritten env of
                    None \<Rightarrow> ?fs2
                  | Some jpg \<Rightarrow> writeFileSync thumbnailOutput jpg ?fs2);
           recording =
             \<lparr>rid = i, name = basename_ext ?out (extname ?out), rpath = ?out,
              duration = meta_duration m, fileSize = stat_size (File c),
              quality = meta_quality m, createdAt = createdStamp env,
              thumbnailPath = (if thumbnailOk env then Some thumbnailOutput else None),
              deletedAt = None\<rparr>
       in Inr (recording,
               addRecording recording (s\<lparr>files := fs3, active := (active s)(i := None)\<rparr>)))"
    unfolding finalize_def a using ne by (simp only: Let_def ren st option.case sum.case if_False)
  have out_kept: "(case thumbnailWritten env of
                    None \<Rightarrow> ?fs2
                  | Some jpg \<Rightarrow> writeFileSync (strip_ext ?out @ ''.jpg'') jpg ?fs2) ?out
                  = Some (File c)"
    using thumb fs2_out by (cases "thumbnailWritten env") (simp_all add: writeFileSync_def)
  show ?thesis
    unfolding fin Let_def using out_kept by (simp add: addRecording_def)
qed

subsection \<open>The finalized artifact\<close>

text \<open>
  C1. From any service state, \<open>begin\<close> followed by \<open>append\<close> of the chunks
  \<open>bs\<close> in order and then \<open>finalize\<close> succeeds; the file at the path of the created
  catalog entry holds exactly the chunks concatenated in append order, so its length is
  the sum of the chunk lengths, the entry records that length, the duration and the
  quality passed to \<open>finalize\<close>, and the entry is the one added to the catalog. The
  scenario theorem after it applies this to chunks of 1000, 2000 and 1500 bytes with
  duration 12 and quality 1080p: the artifact has 4500 bytes.
\<close>

theorem begin_append_finalize:
  "\<exists>r s'. recovery_run mime uuid bs m env s = Inr (r, s') \<and>
     files s' (rpath r) = Some (File (concat bs)) \<and>
     fileSize r = sum_list (map length bs) \<and>
     duration r = meta_duration m \<and> quality r = meta_quality m \<and>
     recordings s' = r # recordings s"
proof -
  define fp where "fp = scratch_path mime uuid s"
  define s1 where "s1 = snd (begin_session mime uuid s)"
  define s2 where "s2 = fold (append_chunk uuid) bs s1"
  have b: "begin_session mime uuid s = ((uuid, fp), s1)"
    using begin_session_state(1) [of mime uuid s] by (simp add: fp_def s1_def prod_eq_iff)
  have s1: "active s1 uuid = Some fp" "files s1 fp = Some (File [])" "recordings s1 = recordings s"
    unfolding s1_def fp_def by (rule begin_session_state)+
  have ne: "fp \<noteq> []"
    unfolding fp_def by (rule scratch_path_nonempty)
  have "s2 = s1\<lparr>files := (files s1)(fp \<mapsto> File ([] @ concat bs))\<rparr>"
    unfolding s2_def using s1(1) ne s1(2) by (rule fold_append_chunk)
  then have s2: "active s2 uuid = Some fp" "files s2 fp = Some (File (concat bs))"
    "recordings s2 = recordings s"
    using s1 by simp_all
  have k: "known_ext (extension_of fp)"
    unfolding fp_def by (rule scratch_path_extension)
  from finalize_open [OF s2(1) ne s2(2) k, of m env]
  obtain r s' where "finalize uuid m env s2 = Inr (r, s')"
    "files s' (rpath r) = Some (File (concat bs))" "fileSize r = length (concat bs)"
    "duration r = meta_duration m" "quality r = meta_quality m"
    "recordings s' = r # recordings s2"
    by blast
  then show ?thesis
    by (simp add: recovery_run_def b s2_def [symmetric] s2(3) length_concat)
qed

theorem begin_append_finalize_scenario:
  "\<exists>r s'. recovery_run ''video/webm'' ''abc-1''
       [replicate 1000 0, replicate 2000 1, replicate 1500 2] sample_meta sample_env fresh_service
       = Inr (r, s') \<and>
     files s' (rpath r) = Some (File (replicate 1000 0 @ replicate 2000 1 @ replicate 1500 2)) \<and>
     fileSize r = 4500 \<and> duration r = 12 \<and> quality r = Q1080p \<and> recordings s' = [r]"
  using begin_append_finalize [of "''video/webm''" "''abc-1''"
      "[replicate 1000 0, replicate 2000 1, replicate 1500 2]" sample_meta sample_env fresh_service]
  by (simp add: sample_meta_def fresh_service_def)

subsection \<open>Output paths and scratch paths\<close>








lemma path_join_inject: "path_join d a = path_join d b \<longleftrightarrow> a = b"
  by (simp add: path_join_def)

subsection \<open>The orphan sweep\<close>






subsection \<open>Late chunks are dropped\<close>

text \<open>
  C10. For an id that is not an open recovery session, \<open>append\<close> returns the service
  unchanged: no file is written and nothing is raised (the model of \<open>append\<close> has no
  error result). This covers an id that was never begun (it is not in \<open>active\<close>), an
  id whose \<open>finalize\<close> succeeded, and an id that was discarded.
\<close>

theorem append_inactive_noop:
  "(active s i = None \<longrightarrow> append_chunk i b s = s) \<and>
   (finalize i m env s = Inr (r, s') \<longrightarrow> append_chunk i b s' = s') \<and>
   append_chunk i b (discard i s) = discard i s"
proof (intro conjI impI)
  show "append_chunk i b s = s" if "active s i = None"
    using that by (simp add: append_chunk_def)
  show "append_chunk i b s' = s'" if "finalize i m env s = Inr (r, s')"
    using finalize_invalidates [OF that] by (simp add: append_chunk_def)
  show "append_chunk i b (discard i s) = discard i s"
    by (simp add: append_chunk_def discard_invalidates)
qed

theorem append_inactive_noop_witness:
  "active fresh_service ''abc-1'' = None \<and>
   append_chunk ''abc-1'' [7, 8] fresh_service = fresh_service \<and>
   (\<exists>r s'. finalize ''abc-1'' sample_meta sample_env open_service = Inr (r, s') \<and>
      append_chunk ''abc-1'' [7, 8] s' = s')"
proof -
  have a: "active fresh_service ''abc-1'' = None"
    by (simp add: fresh_service_def)
  obtain r s' where f: "finalize ''abc-1'' sample_meta sample_env open_service = Inr (r, s')"
    using open_service_finalize by blast
  from append_inactive_noop [of fresh_service "''abc-1''" "[7, 8]"] a
  have "append_chunk ''abc-1'' [7, 8] fresh_service = fresh_service"
    by blast
  moreover from append_inactive_noop [of open_service "''abc-1''" "[7, 8]" sample_meta sample_env r s'] f
  have "append_chunk ''abc-1'' [7, 8] s' = s'"
    by blast
  ultimately show ?thesis
    using a f by blast
qed

subsection \<open>Discard after finalize\<close>

text \<open>
  C8. After a successful \<open>finalize\<close> of an id, \<open>discard\<close> of the same id returns
  the service unchanged: the finalized file, the catalog and every other file stay as
  they are, and nothing is raised (the model of \<open>discard\<close> has no error result).
\<close>

theorem discard_after_finalize_noop:
  assumes "finalize i m env s = Inr (r, s')"
  shows "discard i s' = s' \<and> files (discard i s') (rpath r) = files s' (rpath r)
         \<and> recordings (discard i s') = recordings s'"
  using finalize_invalidates [OF assms] by (simp add: discard_def fun_upd_idem)

theorem discard_after_finalize_noop_witness:
  "\<exists>r s'. finalize ''abc-1'' sample_meta sample_env open_service = Inr (r, s') \<and>
     discard ''abc-1'' s' = s' \<and> files s' (rpath r) \<noteq> None \<and> r \<in> set (recordings s')"
proof -
  obtain r s' where f: "finalize ''abc-1'' sample_meta sample_env open_service = Inr (r, s')"
    using open_service_finalize by blast
  have "files s' (rpath r) \<noteq> None \<and> r \<in> set (recordings s')"
    using f
    by (auto simp: finalize_def addRecording_def Let_def fs_defs
        split: option.splits if_splits sum.splits)
  with discard_after_finalize_noop [OF f] f show ?thesis
    by blast
qed

section \<open>Properties of the watchdog\<close>

subsection \<open>The in-flight guard and the cooldown\<close>

lemma refresh_in_flight:
  assumes "webcamRefreshInFlight w"
  shows "refreshWebcamStream now w = w"
  using assms by (simp add: refreshWebcamStream_def)

lemma refresh_cooling:
  assumes "now < webcamRefreshCooldownUntil w"
  shows "refreshWebcamStream now w = w"
  using assms by (simp add: refreshWebcamStream_def)

lemma refresh_fires:
  assumes "\<not> webcamRefreshInFlight w" "webcamRefreshCooldownUntil w \<le> now"
  shows "attempts (refreshWebcamStream now w) = attempts w + 1"
    and "webcamRefreshInFlight (refreshWebcamStream now w)"
  using assms by (simp_all add: refreshWebcamStream_def attempts_def)

lemma trigger_in_flight:
  assumes "webcamRefreshInFlight w" "is_trigger ev"
  shows "trace (step ev w) = trace w \<and> webcamRefreshInFlight (step ev w)"
  using assms
  by (cases ev) (simp_all add: drawFrame_watchdog_def refresh_in_flight)

lemma trigger_cooling:
  assumes "\<not> webcamRefreshInFlight w" "trigger_before (webcamRefreshCooldownUntil w) ev"
  shows "trace (step ev w) = trace w \<and> \<not> webcamRefreshInFlight (step ev w) \<and>
         webcamRefreshCooldownUntil (step ev w) = webcamRefreshCooldownUntil w"
  using assms
  by (cases ev) (simp_all add: drawFrame_watchdog_def refresh_cooling)

lemma triggers_cooling:
  assumes "\<not> webcamRefreshInFlight w" "\<forall>ev \<in> set evs. trigger_before (webcamRefreshCooldownUntil w) ev"
  shows "trace (fold step evs w) = trace w"
  using assms
proof (induction evs arbitrary: w)
  case Nil
  then show ?case by simp
next
  case (Cons ev evs)
  have ev: "trace (step ev w) = trace w" "\<not> webcamRefreshInFlight (step ev w)"
    "webcamRefreshCooldownUntil (step ev w) = webcamRefreshCooldownUntil w"
    using trigger_cooling [of w ev] Cons.prems by simp_all
  have "trace (fold step evs (step ev w)) = trace (step ev w)"
    using Cons.prems ev by (intro Cons.IH) simp_all
  then show ?case
    using ev(1) by simp
qed

lemma finally_cooldown:
  "\<not> webcamRefreshInFlight (refresh_finally t w)"
  "webcamRefreshCooldownUntil (refresh_finally t w) = t + 5000"
  "trace (refresh_finally t w) = trace w"
  by (simp_all add: refresh_finally_def)

lemma settled_cooldown:
  assumes "w' = play_settled t w \<and> (\<exists>old. phase w = AwaitPlay old) \<or>
           w' = stream_settled outcomes t w \<and> phase w = AwaitStream \<and> getWebcamStream outcomes = None"
  shows "\<not> webcamRefreshInFlight w' \<and> webcamRefreshCooldownUntil w' = t + 5000"
  using assms
  by (auto simp: play_settled_def stream_settled_def finally_cooldown split: option.splits)

lemma stalled_tick_idle:
  assumes "stalled_within (lastWebcamTime w) (lastWebcamFrameAt w + 2000) ev"
  shows "step ev w = w"
  using assms by (cases ev) (simp_all add: drawFrame_watchdog_def)

lemma stalled_ticks_idle:
  assumes "\<forall>ev \<in> set evs. stalled_within (lastWebcamTime w) (lastWebcamFrameAt w + 2000) ev"
  shows "fold step evs w = w"
  using assms by (induction evs) (simp_all add: stalled_tick_idle)

lemma triggers_in_flight:
  assumes "webcamRefreshInFlight w" "\<forall>ev \<in> set evs. is_trigger ev"
  shows "trace (fold step evs w) = trace w"
  using assms
proof (induction evs arbitrary: w)
  case Nil
  then show ?case by simp
next
  case (Cons ev evs)
  have ev: "trace (step ev w) = trace w" "webcamRefreshInFlight (step ev w)"
    using trigger_in_flight [of w ev] Cons.prems by simp_all
  have "trace (fold step evs (step ev w)) = trace (step ev w)"
    using Cons.prems ev by (intro Cons.IH) simp_all
  then show ?case
    using ev(1) by simp
qed

lemma stale_tick_step:
  assumes "readyState \<ge> 2" "now - lastWebcamFrameAt w > 2000"
  shows "step (Tick readyState (lastWebcamTime w) now now') w = refreshWebcamStream now' w"
  using assms by (simp add: drawFrame_watchdog_def)

text \<open>
  C3. (0) A tick that sees a new frame time records it and the time of the tick, and
  starts nothing; this opens the staleness window. (1) From a state with no reacquire
  in flight, ticks that see the same frame time again no later than 2000 ms after the
  last new frame change nothing at all, so the window is not restarted; the first tick
  after them with the frame available (\<open>readyState \<ge> 2\<close>), the same frame time and
  more than 2000 ms since the last new frame, read outside a cooldown, starts exactly
  one reacquire attempt; and whatever ticks and track events follow before the attempt
  settles, the count stays at that one. The single step alone: such a tick starts one
  attempt, which is then in flight. (2) While a reacquire is in
  flight, a call of \<open>refreshWebcamStream\<close> changes nothing, and no tick or track
  event starts an attempt. (3) After an attempt ends at time \<open>t\<close>, by \<open>play()\<close>
  settling after a successful acquisition or by the acquisition failing, no sequence of
  ticks and track events whose calls read a time before \<open>t + 5000\<close> starts an attempt.
\<close>

theorem watchdog_reacquire:
  "(readyState \<ge> 2 \<and> currentTime \<noteq> lastWebcamTime w \<longrightarrow>
      step (Tick readyState currentTime now now') w =
        w\<lparr>lastWebcamTime := currentTime, lastWebcamFrameAt := now\<rparr>) \<and>
   (\<not> webcamRefreshInFlight w \<and>
    (\<forall>e \<in> set early. stalled_within (lastWebcamTime w) (lastWebcamFrameAt w + 2000) e) \<and>
    webcamRefreshCooldownUntil w \<le> now' \<and> readyState \<ge> 2 \<and>
    now - lastWebcamFrameAt w > 2000 \<and> (\<forall>e \<in> set late. is_trigger e) \<longrightarrow>
      fold step early w = w \<and>
      attempts (fold step (early @ [Tick readyState (lastWebcamTime w) now now']) w)
        = attempts w + 1 \<and>
      attempts (fold step (early @ Tick readyState (lastWebcamTime w) now now' # late) w)
        = attempts w + 1) \<and>
   (\<not> webcamRefreshInFlight w \<and> webcamRefreshCooldownUntil w \<le> now' \<and> readyState \<ge> 2 \<and>
      now - lastWebcamFrameAt w > 2000 \<longrightarrow>
      attempts (step (Tick readyState (lastWebcamTime w) now now') w) = attempts w + 1 \<and>
      webcamRefreshInFlight (step (Tick readyState (lastWebcamTime w) now now') w)) \<and>
   (webcamRefreshInFlight w \<longrightarrow>
      refreshWebcamStream now w = w \<and>
      (is_trigger ev \<longrightarrow> attempts (step ev w) = attempts w \<and> webcamRefreshInFlight (step ev w))) \<and>
   ((w' = play_settled t w \<and> (\<exists>old. phase w = AwaitPlay old) \<or>
     w' = stream_settled outcomes t w \<and> phase w = AwaitStream \<and> getWebcamStream outcomes = None) \<and>
    (\<forall>ev \<in> set evs. trigger_before (t + 5000) ev) \<longrightarrow>
      attempts (fold step evs w') = attempts w')"
proof (intro conjI impI)
  assume "readyState \<ge> 2 \<and> currentTime \<noteq> lastWebcamTime w"
  then show "step (Tick readyState currentTime now now') w =
        w\<lparr>lastWebcamTime := currentTime, lastWebcamFrameAt := now\<rparr>"
    by (simp add: drawFrame_watchdog_def)
next
  assume a: "\<not> webcamRefreshInFlight w \<and>
    (\<forall>e \<in> set early. stalled_within (lastWebcamTime w) (lastWebcamFrameAt w + 2000) e) \<and>
    webcamRefreshCooldownUntil w \<le> now' \<and> readyState \<ge> 2 \<and>
    now - lastWebcamFrameAt w > 2000 \<and> (\<forall>e \<in> set late. is_trigger e)"
  let ?fire = "Tick readyState (lastWebcamTime w) now now'"
  show idle: "fold step early w = w"
    using a by (intro stalled_ticks_idle) simp
  have st: "step ?fire w = refreshWebcamStream now' w"
    using a by (intro stale_tick_step) simp_all
  have fired: "attempts (step ?fire w) = attempts w + 1" "webcamRefreshInFlight (step ?fire w)"
    unfolding st using a by (intro refresh_fires; simp)+
  show "attempts (fold step (early @ [?fire]) w) = attempts w + 1"
    using fired(1) by (simp add: idle)
  have "trace (fold step late (step ?fire w)) = trace (step ?fire w)"
    using fired(2) a by (intro triggers_in_flight) simp_all
  then show "attempts (fold step (early @ ?fire # late) w) = attempts w + 1"
    using fired(1) by (simp add: idle attempts_def)
next
  assume a: "\<not> webcamRefreshInFlight w \<and> webcamRefreshCooldownUntil w \<le> now' \<and> readyState \<ge> 2 \<and>
      now - lastWebcamFrameAt w > 2000"
  then have st: "step (Tick readyState (lastWebcamTime w) now now') w = refreshWebcamStream now' w"
    by (intro stale_tick_step) simp_all
  show "attempts (step (Tick readyState (lastWebcamTime w) now now') w) = attempts w + 1"
    unfolding st using a by (intro refresh_fires) simp_all
  show "webcamRefreshInFlight (step (Tick readyState (lastWebcamTime w) now now') w)"
    unfolding st using a by (intro refresh_fires) simp_all
next
  assume "webcamRefreshInFlight w"
  then show "refreshWebcamStream now w = w"
    by (rule refresh_in_flight)
next
  assume "webcamRefreshInFlight w" "is_trigger ev"
  then show "attempts (step ev w) = attempts w" "webcamRefreshInFlight (step ev w)"
    using trigger_in_flight [of w ev] by (simp_all add: attempts_def)
next
  assume a: "(w' = play_settled t w \<and> (\<exists>old. phase w = AwaitPlay old) \<or>
     w' = stream_settled outcomes t w \<and> phase w = AwaitStream \<and> getWebcamStream outcomes = None) \<and>
    (\<forall>ev \<in> set evs. trigger_before (t + 5000) ev)"
  then have "\<not> webcamRefreshInFlight w' \<and> webcamRefreshCooldownUntil w' = t + 5000"
    using settled_cooldown [of w' t w outcomes] by blast
  then have "trace (fold step evs w') = trace w'"
    using a by (intro triggers_cooling) simp_all
  then show "attempts (fold step evs w') = attempts w'"
    by (simp add: attempts_def)
qed

lemma stalled_watchdog_eq:
  "stalled_watchdog = (watchdog_init 0 1)\<lparr>lastWebcamTime := 1 / 2, lastWebcamFrameAt := 100\<rparr>"
  by (simp add: stalled_watchdog_def drawFrame_watchdog_def watchdog_init_def)

lemma refreshing_watchdog_eq:
  "refreshing_watchdog = stalled_watchdog\<lparr>webcamRefreshInFlight := True, phase := AwaitStream,
     trace := [GetWebcamStream]\<rparr>"
  by (simp add: refreshing_watchdog_def stalled_watchdog_eq drawFrame_watchdog_def
      refreshWebcamStream_def watchdog_init_def)

theorem watchdog_reacquire_witness:
  "(2::nat) \<ge> 2 \<and> (1 / 2 :: real) \<noteq> lastWebcamTime (watchdog_init 0 1) \<and>
   step (Tick 2 (1 / 2) 100 100) (watchdog_init 0 1) = stalled_watchdog \<and>
   lastWebcamTime stalled_watchdog = 1 / 2 \<and> lastWebcamFrameAt stalled_watchdog = 100 \<and>
   \<not> webcamRefreshInFlight stalled_watchdog \<and>
   stalled_within (1 / 2) (100 + 2000) (Tick 2 (1 / 2) 1000 1001) \<and>
   stalled_within (1 / 2) (100 + 2000) (Tick 2 (1 / 2) 2100 2101) \<and>
   webcamRefreshCooldownUntil stalled_watchdog \<le> 2201 \<and>
   2200 - lastWebcamFrameAt stalled_watchdog > 2000 \<and>
   is_trigger (Tick 2 (1 / 2) 2300 2301) \<and> is_trigger (TrackEvent 2400) \<and>
   fold step [Tick 2 (1 / 2) 1000 1001, Tick 2 (1 / 2) 2100 2101] stalled_watchdog
     = stalled_watchdog \<and>
   attempts stalled_watchdog = 0 \<and>
   attempts (fold step [Tick 2 (1 / 2) 1000 1001, Tick 2 (1 / 2) 2100 2101,
                        Tick 2 (1 / 2) 2200 2201] stalled_watchdog) = 1 \<and>
   attempts (fold step [Tick 2 (1 / 2) 1000 1001, Tick 2 (1 / 2) 2100 2101,
                        Tick 2 (1 / 2) 2200 2201, Tick 2 (1 / 2) 2300 2301, TrackEvent 2400]
               stalled_watchdog) = 1 \<and>
   attempts (step (Tick 2 (lastWebcamTime stalled_watchdog) 2200 2201) stalled_watchdog)
     = attempts stalled_watchdog + 1 \<and>
   webcamRefreshInFlight refreshing_watchdog \<and> is_trigger (Tick 2 (1 / 2) 4300 4301) \<and>
   attempts (step (Tick 2 (1 / 2) 4300 4301) refreshing_watchdog) = attempts refreshing_watchdog \<and>
   phase refreshing_watchdog = AwaitStream \<and> getWebcamStream [None, None, None] = None \<and>
   trigger_before (3000 + 5000) (Tick 2 (1 / 2) 7000 7001) \<and>
   trigger_before (3000 + 5000) (TrackEvent 7999) \<and>
   attempts (fold step [Tick 2 (1 / 2) 7000 7001, TrackEvent 7999]
               (stream_settled [None, None, None] 3000 refreshing_watchdog))
     = attempts (stream_settled [None, None, None] 3000 refreshing_watchdog)"
proof -
  let ?early = "[Tick 2 (1 / 2) 1000 1001, Tick 2 (1 / 2) 2100 2101]"
  let ?late = "[Tick 2 (1 / 2) 2300 2301, TrackEvent 2400]"
  have n: "(2::nat) \<ge> 2" "(1 / 2 :: real) \<noteq> lastWebcamTime (watchdog_init 0 1)"
    by (simp_all add: watchdog_init_def)
  have w: "lastWebcamTime stalled_watchdog = 1 / 2" "lastWebcamFrameAt stalled_watchdog = 100"
    "attempts stalled_watchdog = 0"
    by (simp_all add: stalled_watchdog_eq watchdog_init_def attempts_def)
  have a': "\<not> webcamRefreshInFlight stalled_watchdog"
    "webcamRefreshCooldownUntil stalled_watchdog \<le> 2201"
    "2200 - lastWebcamFrameAt stalled_watchdog > 2000"
    by (simp_all add: stalled_watchdog_eq watchdog_init_def)
  have e: "stalled_within (1 / 2) (100 + 2000) (Tick 2 (1 / 2) 1000 1001)"
    "stalled_within (1 / 2) (100 + 2000) (Tick 2 (1 / 2) 2100 2101)"
    "is_trigger (Tick 2 (1 / 2) 2300 2301)" "is_trigger (TrackEvent 2400)"
    by simp_all
  have b: "webcamRefreshInFlight refreshing_watchdog" "is_trigger (Tick 2 (1 / 2) 4300 4301)"
    by (simp_all add: refreshing_watchdog_eq)
  have c': "phase refreshing_watchdog = AwaitStream" "getWebcamStream [None, None, None] = None"
    "trigger_before (3000 + 5000) (Tick 2 (1 / 2) 7000 7001)"
    "trigger_before (3000 + 5000) (TrackEvent 7999)"
    by (simp_all add: refreshing_watchdog_eq)
  from watchdog_reacquire [where w = "watchdog_init 0 1" and readyState = 2
      and currentTime = "1 / 2" and now = 100 and now' = 100] n
  have 0: "step (Tick 2 (1 / 2) 100 100) (watchdog_init 0 1) = stalled_watchdog"
    by (simp add: stalled_watchdog_eq)
  have h: "\<not> webcamRefreshInFlight stalled_watchdog \<and>
    (\<forall>e \<in> set ?early. stalled_within (lastWebcamTime stalled_watchdog)
        (lastWebcamFrameAt stalled_watchdog + 2000) e) \<and>
    webcamRefreshCooldownUntil stalled_watchdog \<le> 2201 \<and> (2::nat) \<ge> 2 \<and>
    2200 - lastWebcamFrameAt stalled_watchdog > 2000 \<and> (\<forall>e \<in> set ?late. is_trigger e)"
    using a' by (simp add: w)
  from watchdog_reacquire [where w = stalled_watchdog and early = ?early and late = ?late
      and now' = 2201 and readyState = 2 and now = 2200] h
  have 1: "fold step ?early stalled_watchdog = stalled_watchdog"
    "attempts (fold step (?early @ [Tick 2 (lastWebcamTime stalled_watchdog) 2200 2201])
        stalled_watchdog) = attempts stalled_watchdog + 1"
    "attempts (fold step (?early @ Tick 2 (lastWebcamTime stalled_watchdog) 2200 2201 # ?late)
        stalled_watchdog) = attempts stalled_watchdog + 1"
    "attempts (step (Tick 2 (lastWebcamTime stalled_watchdog) 2200 2201) stalled_watchdog)
     = attempts stalled_watchdog + 1"
    by blast+
  have cnt: "attempts (fold step [Tick 2 (1 / 2) 1000 1001, Tick 2 (1 / 2) 2100 2101,
                        Tick 2 (1 / 2) 2200 2201] stalled_watchdog) = 1"
    "attempts (fold step [Tick 2 (1 / 2) 1000 1001, Tick 2 (1 / 2) 2100 2101,
                        Tick 2 (1 / 2) 2200 2201, Tick 2 (1 / 2) 2300 2301, TrackEvent 2400]
               stalled_watchdog) = 1"
    using 1(2,3) unfolding w by simp_all
  from watchdog_reacquire [where w = refreshing_watchdog and ev = "Tick 2 (1 / 2) 4300 4301"] b
  have 2: "attempts (step (Tick 2 (1 / 2) 4300 4301) refreshing_watchdog) = attempts refreshing_watchdog"
    by blast
  have c: "(stream_settled [None, None, None] 3000 refreshing_watchdog
              = play_settled 3000 refreshing_watchdog \<and> (\<exists>old. phase refreshing_watchdog = AwaitPlay old) \<or>
            stream_settled [None, None, None] 3000 refreshing_watchdog
              = stream_settled [None, None, None] 3000 refreshing_watchdog \<and>
            phase refreshing_watchdog = AwaitStream \<and> getWebcamStream [None, None, None] = None) \<and>
           (\<forall>ev \<in> set [Tick 2 (1 / 2) 7000 7001, TrackEvent 7999]. trigger_before (3000 + 5000) ev)"
    by (simp add: refreshing_watchdog_eq)
  from watchdog_reacquire [where w = refreshing_watchdog
      and w' = "stream_settled [None, None, None] 3000 refreshing_watchdog" and t = 3000
      and outcomes = "[None, None, None]"
      and evs = "[Tick 2 (1 / 2) 7000 7001, TrackEvent 7999]"] c
  have 3: "attempts (fold step [Tick 2 (1 / 2) 7000 7001, TrackEvent 7999]
               (stream_settled [None, None, None] 3000 refreshing_watchdog))
     = attempts (stream_settled [None, None, None] 3000 refreshing_watchdog)"
    by blast
  show ?thesis
    by (intro conjI n 0 w a' e 1(1) cnt 1(4) b 2 c' 3)
qed

subsection \<open>Install before release\<close>

lemma snoc_eq_append_Cons:
  "xs @ [a] = pre @ x # post \<longleftrightarrow>
     (post = [] \<and> xs = pre \<and> a = x) \<or> (\<exists>post'. post = post' @ [a] \<and> xs = pre @ x # post')"
  by (cases post rule: rev_cases) auto

lemma swap_before_release_Nil: "swap_before_release []"
  by (simp add: swap_before_release_def)

lemma swap_before_release_snoc:
  assumes "swap_before_release tr" "\<forall>old. a \<noteq> StopTracks old"
  shows "swap_before_release (tr @ [a])"
  using assms unfolding swap_before_release_def snoc_eq_append_Cons by blast

lemma swap_before_release_stop:
  assumes "swap_before_release (tr @ [SetStreamRef new, SetSrcObject new])"
  shows "swap_before_release ((tr @ [SetStreamRef new, SetSrcObject new]) @ [StopTracks old])"
  using assms unfolding swap_before_release_def snoc_eq_append_Cons by blast

lemma refresh_inv:
  assumes "watchdog_inv w"
  shows "watchdog_inv (refreshWebcamStream now w)"
  using assms
  by (auto simp: watchdog_inv_def refreshWebcamStream_def swap_before_release_snoc)

lemma drawFrame_inv:
  assumes "watchdog_inv w"
  shows "watchdog_inv (drawFrame_watchdog readyState currentTime now now' w)"
proof -
  have "watchdog_inv (w\<lparr>lastWebcamTime := currentTime, lastWebcamFrameAt := now\<rparr>)"
    using assms by (simp add: watchdog_inv_def split: refresh_phase.splits)
  then show ?thesis
    using assms refresh_inv [OF assms, of now'] by (simp add: drawFrame_watchdog_def)
qed

lemma finally_inv:
  assumes "swap_before_release (trace w)"
  shows "watchdog_inv (refresh_finally now w)"
  using assms by (simp add: watchdog_inv_def refresh_finally_def)

lemma stream_settled_inv:
  assumes "watchdog_inv w"
  shows "watchdog_inv (stream_settled outcomes now w)"
proof (cases "phase w = AwaitStream")
  case False
  then show ?thesis
    using assms by (cases "phase w") (simp_all add: stream_settled_def)
next
  case True
  show ?thesis
  proof (cases "getWebcamStream outcomes")
    case None
    have "swap_before_release (trace w)"
      using assms by (simp add: watchdog_inv_def)
    then have "watchdog_inv (refresh_finally now w)"
      by (rule finally_inv)
    then show ?thesis
      using True None by (simp add: stream_settled_def)
  next
    case (Some new)
    have "swap_before_release ((trace w @ [SetStreamRef new]) @ [SetSrcObject new])"
      using assms by (intro swap_before_release_snoc) (simp_all add: watchdog_inv_def)
    then show ?thesis
      using True Some by (simp add: stream_settled_def watchdog_inv_def)
  qed
qed

lemma play_settled_inv:
  assumes "watchdog_inv w"
  shows "watchdog_inv (play_settled now w)"
proof (cases "phase w")
  case (AwaitPlay oldStream)
  then obtain tr new where tr: "trace w = tr @ [SetStreamRef new, SetSrcObject new]"
    using assms by (auto simp: watchdog_inv_def)
  have sw: "swap_before_release (trace w)"
    using assms by (simp add: watchdog_inv_def)
  show ?thesis
  proof (cases oldStream)
    case None
    then show ?thesis
      using AwaitPlay sw by (simp add: play_settled_def finally_inv)
  next
    case (Some old)
    have "swap_before_release (trace w @ [StopTracks old])"
      using sw unfolding tr by (rule swap_before_release_stop)
    then have "watchdog_inv (refresh_finally now (w\<lparr>trace := trace w @ [StopTracks old]\<rparr>))"
      by (intro finally_inv) simp
    then show ?thesis
      using AwaitPlay Some by (simp add: play_settled_def)
  qed
qed (use assms in \<open>simp_all add: play_settled_def\<close>)

lemma step_inv:
  assumes "watchdog_inv w"
  shows "watchdog_inv (step ev w)"
  using assms
  by (cases ev) (simp_all add: drawFrame_inv refresh_inv stream_settled_inv play_settled_inv)

lemma run_inv:
  assumes "watchdog_inv w"
  shows "watchdog_inv (fold step evs w)"
  using assms by (induction evs arbitrary: w) (simp_all add: step_inv)

lemma init_inv: "watchdog_inv (watchdog_init t0 st)"
  by (simp add: watchdog_inv_def watchdog_init_def swap_before_release_Nil)

text \<open>
  C4. (1) In every run of the watchdog from the start of the compositor, each release
  (\<open>StopTracks\<close>) in the trace comes right after the install of a new source in
  \<open>webcamStreamRef\<close> and the swap of the video element's input to that source.
  (2) One successful reacquire adds to the trace the install, the swap and then the
  release of the stream that was installed before, and leaves the new stream installed
  and as input. (3) A failed reacquire releases nothing and leaves the installed stream
  and the input as they were.
\<close>

theorem install_before_release:
  "(trace (fold step evs (watchdog_init start st)) = pre @ StopTracks old # post \<longrightarrow>
      (\<exists>pre' new. pre = pre' @ [SetStreamRef new, SetSrcObject new])) \<and>
   (phase w = AwaitStream \<and> getWebcamStream outcomes = Some new \<longrightarrow>
      trace (play_settled t' (stream_settled outcomes t w)) =
        trace w @ [SetStreamRef new, SetSrcObject new] @
          (case webcamStreamRef w of Some old \<Rightarrow> [StopTracks old] | None \<Rightarrow> []) \<and>
      webcamStreamRef (play_settled t' (stream_settled outcomes t w)) = Some new \<and>
      srcObject (play_settled t' (stream_settled outcomes t w)) = Some new) \<and>
   (phase w = AwaitStream \<and> getWebcamStream outcomes = None \<longrightarrow>
      trace (stream_settled outcomes t w) = trace w \<and>
      webcamStreamRef (stream_settled outcomes t w) = webcamStreamRef w \<and>
      srcObject (stream_settled outcomes t w) = srcObject w)"
proof (intro conjI impI)
  assume "trace (fold step evs (watchdog_init start st)) = pre @ StopTracks old # post"
  moreover have "swap_before_release (trace (fold step evs (watchdog_init start st)))"
    using run_inv [OF init_inv] by (simp add: watchdog_inv_def)
  ultimately show "\<exists>pre' new. pre = pre' @ [SetStreamRef new, SetSrcObject new]"
    unfolding swap_before_release_def by blast
next
  assume a: "phase w = AwaitStream \<and> getWebcamStream outcomes = Some new"
  then show "trace (play_settled t' (stream_settled outcomes t w)) =
        trace w @ [SetStreamRef new, SetSrcObject new] @
          (case webcamStreamRef w of Some old \<Rightarrow> [StopTracks old] | None \<Rightarrow> [])"
    by (simp add: stream_settled_def play_settled_def refresh_finally_def split: option.splits)
  show "webcamStreamRef (play_settled t' (stream_settled outcomes t w)) = Some new"
    using a by (simp add: stream_settled_def play_settled_def refresh_finally_def split: option.splits)
  show "srcObject (play_settled t' (stream_settled outcomes t w)) = Some new"
    using a by (simp add: stream_settled_def play_settled_def refresh_finally_def split: option.splits)
next
  assume a: "phase w = AwaitStream \<and> getWebcamStream outcomes = None"
  then show "trace (stream_settled outcomes t w) = trace w"
    "webcamStreamRef (stream_settled outcomes t w) = webcamStreamRef w"
    "srcObject (stream_settled outcomes t w) = srcObject w"
    by (simp_all add: stream_settled_def refresh_finally_def)
qed

theorem install_before_release_witness:
  "trace (fold step reacquire_run (watchdog_init 0 1)) =
     [GetWebcamStream, SetStreamRef 7, SetSrcObject 7] @ StopTracks 1 # [] \<and>
   (\<exists>pre' new. [GetWebcamStream, SetStreamRef 7, SetSrcObject 7]
      = pre' @ [SetStreamRef new, SetSrcObject new]) \<and>
   phase refreshing_watchdog = AwaitStream \<and> getWebcamStream [None, Some 7] = Some 7 \<and>
   trace (play_settled 2700 (stream_settled [None, Some 7] 2500 refreshing_watchdog)) =
     [GetWebcamStream, SetStreamRef 7, SetSrcObject 7, StopTracks 1] \<and>
   getWebcamStream [None, None, None] = None \<and>
   webcamStreamRef (stream_settled [None, None, None] 2500 refreshing_watchdog) = Some 1"
proof -
  have tr: "trace (fold step reacquire_run (watchdog_init 0 1)) =
     [GetWebcamStream, SetStreamRef 7, SetSrcObject 7] @ StopTracks 1 # []"
    by (simp add: reacquire_run_def watchdog_init_def drawFrame_watchdog_def
        refreshWebcamStream_def stream_settled_def play_settled_def refresh_finally_def)
  have ph: "phase refreshing_watchdog = AwaitStream" "getWebcamStream [None, Some 7] = Some 7"
    "getWebcamStream [None, None, None] = None"
    by (simp_all add: refreshing_watchdog_eq)
  have w: "trace refreshing_watchdog = [GetWebcamStream]" "webcamStreamRef refreshing_watchdog = Some 1"
    by (simp_all add: refreshing_watchdog_eq stalled_watchdog_eq watchdog_init_def)
  note inst = install_before_release [where evs = reacquire_run and start = 0 and st = 1
      and pre = "[GetWebcamStream, SetStreamRef 7, SetSrcObject 7]" and old = 1 and post = "[]"
      and w = refreshing_watchdog]
  from inst [where outcomes = "[None, Some 7]" and new = 7] tr
  have 1: "\<exists>pre' new. [GetWebcamStream, SetStreamRef 7, SetSrcObject 7]
      = pre' @ [SetStreamRef new, SetSrcObject new]"
    by blast
  from inst [where outcomes = "[None, Some 7]" and new = 7 and t = 2500 and t' = 2700] ph
  have 2: "trace (play_settled 2700 (stream_settled [None, Some 7] 2500 refreshing_watchdog)) =
     [GetWebcamStream, SetStreamRef 7, SetSrcObject 7, StopTracks 1]"
    by (simp add: w)
  from inst [where outcomes = "[None, None, None]" and t = 2500] ph
  have 3: "webcamStreamRef (stream_settled [None, None, None] 2500 refreshing_watchdog) = Some 1"
    by (simp add: w)
  show ?thesis
    by (intro conjI tr 1 ph 2 3)
qed

section \<open>Properties of the duration timer\<close>

lemma session_step_pausedDuration:
  "pausedDurationRef (session_step ev s) = pausedDurationRef s"
  by (cases ev) (simp_all add: timer_tick_def pauseRecording_def resumeRecording_def Let_def)

lemma timer_run_pausedDuration:
  "pausedDurationRef (fold session_step evs s) = pausedDurationRef s"
  by (induction evs arbitrary: s) (simp_all add: session_step_pausedDuration)

text \<open>
  C5, evaluated on the code. \<open>pausedDurationRef\<close> is set to 0 by \<open>onstart\<close> and no
  pause, resume or timer tick changes it, so the timer reports the wall-clock time since
  the start: after a pause from 5 s to 15 s the timer at 16 s reports 16 seconds, of
  which only 6 were recorded.
\<close>

theorem paused_interval_is_counted:
  "pausedDurationRef (fold session_step evs (onstart t s)) = 0 \<and>
   storeDuration (fold session_step paused_run (onstart 0 idle_session)) = 16 \<and>
   status (fold session_step paused_run (onstart 0 idle_session)) = Recording"
proof (intro conjI)
  show "pausedDurationRef (fold session_step evs (onstart t s)) = 0"
    by (simp add: timer_run_pausedDuration onstart_def)
  show "storeDuration (fold session_step paused_run (onstart 0 idle_session)) = 16"
    by (simp add: paused_run_def onstart_def idle_session_def timer_tick_def
        pauseRecording_def resumeRecording_def Let_def)
  show "status (fold session_step paused_run (onstart 0 idle_session)) = Recording"
    by (simp add: paused_run_def onstart_def idle_session_def timer_tick_def
        pauseRecording_def resumeRecording_def Let_def)
qed

section \<open>Properties of the audio mixer\<close>

lemma acquire_audio_length: "length (acquire_audio a) \<le> 2"
  by (simp add: acquire_audio_def Let_def split: option.splits)

text \<open>
  C6. At most two audio sources are acquired. With exactly one, its audio tracks are
  added to the combined stream as they are and no graph is built. With two and a graph
  whose construction succeeds, both are connected to the one destination and the
  destination's tracks are added. With two and a graph whose construction fails (the
  context or destination, or the connection of either source), the tracks added are
  those of the first acquired source alone.
\<close>

theorem audio_mixing:
  "length (acquire_audio a) \<le> 2 \<and>
   (acquire_audio a = [only] \<longrightarrow>
      mix_audio g (acquire_audio a) =
        \<lparr>added = audioTracks only, connected = [], graphCreated = False\<rparr>) \<and>
   (acquire_audio a = [sa, sb] \<and> contextOk g \<and> sourceOk g 0 \<and> sourceOk g 1 \<longrightarrow>
      mix_audio g (acquire_audio a) =
        \<lparr>added = destinationTracks g, connected = [sa, sb], graphCreated = True\<rparr>) \<and>
   (acquire_audio a = [sa, sb] \<and> (\<not> contextOk g \<or> \<not> sourceOk g 0 \<or> \<not> sourceOk g 1) \<longrightarrow>
      added (mix_audio g (acquire_audio a)) = audioTracks sa)"
  by (auto simp: acquire_audio_length mix_audio_def)

theorem audio_mixing_witness:
  "acquire_audio mic_only = [sample_mic] \<and>
   mix_audio good_graph (acquire_audio mic_only) =
     \<lparr>added = [12], connected = [], graphCreated = False\<rparr> \<and>
   acquire_audio both_sources = [sample_display, sample_mic] \<and>
   contextOk good_graph \<and> sourceOk good_graph 0 \<and> sourceOk good_graph 1 \<and>
   mix_audio good_graph (acquire_audio both_sources) =
     \<lparr>added = [20], connected = [sample_display, sample_mic], graphCreated = True\<rparr> \<and>
   \<not> sourceOk broken_graph 1 \<and>
   added (mix_audio broken_graph (acquire_audio both_sources)) = [11]"
proof -
  have 1: "acquire_audio mic_only = [sample_mic]"
    by (simp add: acquire_audio_def mic_only_def)
  have 2: "acquire_audio both_sources = [sample_display, sample_mic]"
    by (simp add: acquire_audio_def both_sources_def sample_display_def)
  have 3: "contextOk good_graph" "sourceOk good_graph 0" "sourceOk good_graph 1"
    "\<not> sourceOk broken_graph 1"
    by (simp_all add: good_graph_def broken_graph_def)
  have t: "audioTracks sample_mic = [12]" "audioTracks sample_display = [11]"
    "destinationTracks good_graph = [20]"
    by (simp_all add: sample_mic_def sample_display_def good_graph_def)
  from audio_mixing [where a = mic_only and g = good_graph and only = sample_mic] 1
  have 4: "mix_audio good_graph (acquire_audio mic_only) =
     \<lparr>added = [12], connected = [], graphCreated = False\<rparr>"
    by (simp add: t)
  from audio_mixing [where a = both_sources and g = good_graph and sa = sample_display
      and sb = sample_mic] 2 3
  have 5: "mix_audio good_graph (acquire_audio both_sources) =
     \<lparr>added = [20], connected = [sample_display, sample_mic], graphCreated = True\<rparr>"
    by (simp add: t)
  from audio_mixing [where a = both_sources and g = broken_graph and sa = sample_display
      and sb = sample_mic] 2 3
  have 6: "added (mix_audio broken_graph (acquire_audio both_sources)) = [11]"
    by (simp add: t)
  show ?thesis
    by (intro conjI 1 2 3 4 5 6)
qed

section \<open>Properties of startRecording\<close>

text \<open>
  C2, as stated, fails on the code. The \<open>try\<close> block of the webcam overlay calls
  \<open>getWebcamOverlayConfig\<close> before it asks for the webcam, so a start whose webcam
  capture is rejected has already queried the geometry: here the session reaches
  \<open>recording\<close> and the query is among the calls made.
\<close>

theorem webcam_failure_queries_overlay:
  "includeWebcam webcam_fails \<and> webcamStream webcam_fails = None \<and>
   screenStream webcam_fails = Some sample_screen \<and>
   finalStatus (startRecording webcam_fails Idle) = Recording \<and>
   GetWebcamOverlayConfig \<in> set (calls (startRecording webcam_fails Idle))"
  by (simp add: webcam_fails_def startRecording_def webcam_block_def Let_def)

text \<open>
  C2, amended. When a source is selected, the settings and the screen are acquired, the
  webcam is requested, the geometry query succeeds, the webcam capture is rejected and
  the recorder starts, the session reaches \<open>recording\<close> with the screen's video tracks
  as the only video, no webcam stream is kept, and the geometry was queried exactly once,
  right before the webcam capture was attempted.
\<close>

theorem webcam_failure_screen_only:
  assumes "hasSelectedSource env" "settingsOk env" "screenStream env = Some screen"
    and "includeWebcam env" "overlayConfigOk env" "webcamStream env = None"
    and "recorderOk env"
  shows "finalStatus (startRecording env st0) = Recording \<and>
         combinedVideo (startRecording env st0) = videoTracks screen \<and>
         webcamRef (startRecording env st0) = None \<and>
         calls (startRecording env st0) =
           [GetSettings, GetUserMediaScreen, GetWebcamOverlayConfig, GetUserMediaWebcam,
            BeginRecordingRecovery, NewMediaRecorder]"
  using assms by (simp add: startRecording_def webcam_block_def Let_def)

theorem webcam_failure_screen_only_witness:
  "hasSelectedSource webcam_fails \<and> settingsOk webcam_fails \<and>
   screenStream webcam_fails = Some sample_screen \<and> includeWebcam webcam_fails \<and>
   overlayConfigOk webcam_fails \<and> webcamStream webcam_fails = None \<and> recorderOk webcam_fails \<and>
   finalStatus (startRecording webcam_fails Idle) = Recording \<and>
   combinedVideo (startRecording webcam_fails Idle) = [1]"
proof -
  have h: "hasSelectedSource webcam_fails" "settingsOk webcam_fails"
    "screenStream webcam_fails = Some sample_screen" "includeWebcam webcam_fails"
    "overlayConfigOk webcam_fails" "webcamStream webcam_fails = None" "recorderOk webcam_fails"
    by (simp_all add: webcam_fails_def)
  from webcam_failure_screen_only [OF h, of Idle]
  have "finalStatus (startRecording webcam_fails Idle) = Recording"
    "combinedVideo (startRecording webcam_fails Idle) = [1]"
    by (simp_all add: sample_screen_def)
  then show ?thesis
    using h by simp
qed

section \<open>Properties of the bubble placement\<close>

lemma Math_round_bounds: "x - 1 / 2 < Math_round x \<and> Math_round x \<le> x + 1 / 2"
  unfolding Math_round_def js_round_def by linarith

lemma Math_round_half_nonneg:
  assumes "0 \<le> d"
  shows "0 \<le> Math_round (d / 2) \<and> Math_round (d / 2) \<le> d"
proof (cases "d < 1")
  case True
  then have "\<lfloor>d / 2 + 1 / 2\<rfloor> = 0"
    using assms by (intro floor_unique) simp_all
  then show ?thesis
    using assms by (simp add: Math_round_def js_round_def)
next
  case False
  have nonneg: "0 \<le> \<lfloor>d / 2 + 1 / 2\<rfloor>"
    using assms by simp
  have "real_of_int \<lfloor>d / 2 + 1 / 2\<rfloor> \<le> d / 2 + 1 / 2"
    by (rule of_int_floor_le)
  then have "real_of_int \<lfloor>d / 2 + 1 / 2\<rfloor> \<le> d"
    using False by linarith
  then show ?thesis
    using nonneg by (simp add: Math_round_def js_round_def)
qed

lemma shape_pip_circle:
  fixes r :: pip
  defines "b \<equiv> shape_pip Circle r"
  shows "pipWidth b = min (pipWidth r) (pipHeight r)"
    and "pipHeight b = min (pipWidth r) (pipHeight r)"
    and "pipX r \<le> pipX b" and "pipX b + pipWidth b \<le> pipX r + pipWidth r"
    and "pipY r \<le> pipY b" and "pipY b + pipHeight b \<le> pipY r + pipHeight r"
    and "\<bar>(pipX b + pipWidth b / 2) - (pipX r + pipWidth r / 2)\<bar> \<le> 1 / 2"
    and "\<bar>(pipY b + pipHeight b / 2) - (pipY r + pipHeight r / 2)\<bar> \<le> 1 / 2"
proof -
  define d where "d = min (pipWidth r) (pipHeight r)"
  define mx where "mx = Math_round ((pipWidth r - d) / 2)"
  define my where "my = Math_round ((pipHeight r - d) / 2)"
  have w: "0 \<le> pipWidth r - d" and h: "0 \<le> pipHeight r - d"
    by (simp_all add: d_def)
  have ac: "0 \<le> mx" "mx \<le> pipWidth r - d" "(pipWidth r - d) / 2 - 1 / 2 < mx"
    "mx \<le> (pipWidth r - d) / 2 + 1 / 2"
    using Math_round_half_nonneg [OF w] Math_round_bounds [of "(pipWidth r - d) / 2"]
    by (simp_all add: mx_def)
  have dn: "0 \<le> my" "my \<le> pipHeight r - d" "(pipHeight r - d) / 2 - 1 / 2 < my"
    "my \<le> (pipHeight r - d) / 2 + 1 / 2"
    using Math_round_half_nonneg [OF h] Math_round_bounds [of "(pipHeight r - d) / 2"]
    by (simp_all add: my_def)
  have b: "pipX b = pipX r + mx" "pipY b = pipY r + my" "pipWidth b = d" "pipHeight b = d"
    by (simp_all add: b_def shape_pip_def Let_def d_def mx_def my_def)
  show "pipWidth b = min (pipWidth r) (pipHeight r)" "pipHeight b = min (pipWidth r) (pipHeight r)"
    by (simp_all add: b d_def)
  show "pipX r \<le> pipX b" "pipX b + pipWidth b \<le> pipX r + pipWidth r"
    using ac by (simp_all add: b)
  show "pipY r \<le> pipY b" "pipY b + pipHeight b \<le> pipY r + pipHeight r"
    using dn by (simp_all add: b)
  have "- (1 / 2) \<le> mx - (pipWidth r - d) / 2" "mx - (pipWidth r - d) / 2 \<le> 1 / 2"
    using ac by linarith+
  then show "\<bar>(pipX b + pipWidth b / 2) - (pipX r + pipWidth r / 2)\<bar> \<le> 1 / 2"
    unfolding b abs_le_iff by (simp add: field_simps)
  have "- (1 / 2) \<le> my - (pipHeight r - d) / 2" "my - (pipHeight r - d) / 2 \<le> 1 / 2"
    using dn by linarith+
  then show "\<bar>(pipY b + pipHeight b / 2) - (pipY r + pipHeight r / 2)\<bar> \<le> 1 / 2"
    unfolding b abs_le_iff by (simp add: field_simps)
qed

lemma resolve_pip_configured:
  assumes "0 < cfgWidth c" "cfgWidth c \<le> canvasWidth" "0 < cfgHeight c" "cfgHeight c \<le> canvasHeight"
  shows "pipWidth (resolve_pip canvasWidth canvasHeight vw vh (Some c) pos) = cfgWidth c"
    and "pipHeight (resolve_pip canvasWidth canvasHeight vw vh (Some c) pos) = cfgHeight c"
  using assms by (simp_all add: resolve_pip_def Let_def split: option.splits prod.splits)

text \<open>
  C9. On a frame drawn with the circle shape, the bubble's width equals its height and
  both equal the smaller side of the rectangle resolved for the overlay; the bubble lies
  inside that rectangle and its centre is within half a pixel of the rectangle's centre
  on both axes (the offset is rounded to a whole pixel). Where the overlay is configured
  with a positive size that fits the canvas, the resolved sides are the configured ones,
  so the diameter is the smaller of the configured width and height.
\<close>

theorem circle_bubble:
  fixes canvasWidth canvasHeight videoWidth videoHeight :: real
    and overlay :: "overlayConfig option" and position :: "(real \<times> real) option"
  defines "r \<equiv> resolve_pip canvasWidth canvasHeight videoWidth videoHeight overlay position"
  defines "b \<equiv> drawFrame_pip Circle canvasWidth canvasHeight videoWidth videoHeight overlay position"
  shows "pipWidth b = pipHeight b \<and> pipWidth b = min (pipWidth r) (pipHeight r) \<and>
         pipX r \<le> pipX b \<and> pipX b + pipWidth b \<le> pipX r + pipWidth r \<and>
         pipY r \<le> pipY b \<and> pipY b + pipHeight b \<le> pipY r + pipHeight r \<and>
         \<bar>(pipX b + pipWidth b / 2) - (pipX r + pipWidth r / 2)\<bar> \<le> 1 / 2 \<and>
         \<bar>(pipY b + pipHeight b / 2) - (pipY r + pipHeight r / 2)\<bar> \<le> 1 / 2 \<and>
         (overlay = Some c \<and> 0 < cfgWidth c \<and> cfgWidth c \<le> canvasWidth \<and>
          0 < cfgHeight c \<and> cfgHeight c \<le> canvasHeight \<longrightarrow>
            pipWidth b = min (cfgWidth c) (cfgHeight c))"
proof -
  have b: "b = shape_pip Circle r"
    by (simp add: b_def r_def drawFrame_pip_def)
  have "pipWidth b = min (cfgWidth c) (cfgHeight c)"
    if "overlay = Some c \<and> 0 < cfgWidth c \<and> cfgWidth c \<le> canvasWidth \<and>
          0 < cfgHeight c \<and> cfgHeight c \<le> canvasHeight"
    using that shape_pip_circle(1) [of r] resolve_pip_configured [of c canvasWidth canvasHeight]
    by (simp add: b r_def)
  then show ?thesis
    unfolding b using shape_pip_circle [of r] by simp
qed

theorem circle_bubble_witness:
  "0 < cfgWidth sample_overlay \<and> cfgWidth sample_overlay \<le> 1920 \<and>
   0 < cfgHeight sample_overlay \<and> cfgHeight sample_overlay \<le> 1080 \<and>
   resolve_pip 1920 1080 1280 720 (Some sample_overlay) None
     = \<lparr>pipX = 100, pipY = 50, pipWidth = 320, pipHeight = 240\<rparr> \<and>
   drawFrame_pip Circle 1920 1080 1280 720 (Some sample_overlay) None
     = \<lparr>pipX = 140, pipY = 50, pipWidth = 240, pipHeight = 240\<rparr> \<and>
   pipWidth (drawFrame_pip Circle 1920 1080 1280 720 (Some sample_overlay) None)
     = min (cfgWidth sample_overlay) (cfgHeight sample_overlay)"
proof -
  have h: "0 < cfgWidth sample_overlay" "cfgWidth sample_overlay \<le> 1920"
    "0 < cfgHeight sample_overlay" "cfgHeight sample_overlay \<le> 1080"
    by (simp_all add: sample_overlay_def)
  have r: "resolve_pip 1920 1080 1280 720 (Some sample_overlay) None
     = \<lparr>pipX = 100, pipY = 50, pipWidth = 320, pipHeight = 240\<rparr>"
    by (simp add: resolve_pip_def sample_overlay_def Let_def)
  have b: "drawFrame_pip Circle 1920 1080 1280 720 (Some sample_overlay) None
     = \<lparr>pipX = 140, pipY = 50, pipWidth = 240, pipHeight = 240\<rparr>"
    by (simp add: drawFrame_pip_def r shape_pip_def Let_def Math_round_def js_round_def)
  from circle_bubble [where overlay = "Some sample_overlay" and c = sample_overlay
      and canvasWidth = 1920 and canvasHeight = 1080 and videoWidth = 1280 and videoHeight = 720
      and position = None] h
  have "pipWidth (drawFrame_pip Circle 1920 1080 1280 720 (Some sample_overlay) None)
     = min (cfgWidth sample_overlay) (cfgHeight sample_overlay)"
    by blast
  then show ?thesis
    using h r b by simp
qed

end
